theory Spec2Isabelle
  imports Main "HOL-Library.Word" "HOL-Library.AList"
begin

unbundle bit_operations_syntax

section \<open>Values of the host language\<close>

text \<open>
  The parser is TypeScript running on Node. A \<^verbatim>\<open>Buffer\<close> is a list of bytes, a
  \<^verbatim>\<open>number\<close> that holds an integer and a \<^verbatim>\<open>bigint\<close> are both \<^typ>\<open>int\<close> (every
  number the parser computes is an integer far below \<open>2^53\<close>, so no rounding takes
  place), and a string is the list of its UTF-16 code units.
\<close>

type_synonym byte = "8 word"
type_synonym jsstring = "nat list"

definition ascii :: "string \<Rightarrow> jsstring" where
  "ascii s = map of_char s"

text \<open>\<^verbatim>\<open>buffer[i]\<close>: \<^verbatim>\<open>undefined\<close> (here \<open>None\<close>) outside the buffer.\<close>

definition bufAt :: "byte list \<Rightarrow> int \<Rightarrow> byte option" where
  "bufAt b i = (if 0 \<le> i \<and> i < int (length b) then Some (b ! nat i) else None)"

text \<open>\<^verbatim>\<open>x & m\<close> for a value read by \<^verbatim>\<open>buffer[i]\<close>: \<^verbatim>\<open>undefined\<close> converts to 0.\<close>

definition toInt32 :: "byte option \<Rightarrow> 32 word" where
  "toInt32 b = (case b of None \<Rightarrow> 0 | Some x \<Rightarrow> ucast x)"

text \<open>\<^verbatim>\<open>Buffer.slice(start, end)\<close>: negative indices count from the end, both are clamped.\<close>

definition jsSlice :: "byte list \<Rightarrow> int \<Rightarrow> int \<Rightarrow> byte list" where
  "jsSlice b s e =
     (let n = int (length b);
          s' = (if s < 0 then max (n + s) 0 else min s n);
          e' = (if e < 0 then max (n + e) 0 else min e n)
      in take (nat (e' - s')) (drop (nat s') b))"

text \<open>
  \<^verbatim>\<open>Buffer.toString('ascii', start, end)\<close>: a start at or below 0 is 0, a start at or past
  the length gives the empty string, an end past the length is the length, and an end at or
  before the start gives the empty string. Decoding clears the top bit of every byte.
\<close>

definition jsToStringAscii :: "byte list \<Rightarrow> int \<Rightarrow> int \<Rightarrow> jsstring" where
  "jsToStringAscii b s e =
     (let n = int (length b) in
      if 0 < s \<and> n \<le> s then []
      else let s' = max s 0; e' = (if n < e then n else e) in
           if e' \<le> s' then []
           else map (\<lambda>x. unat (x AND 0x7f)) (take (nat (e' - s')) (drop (nat s') b)))"

text \<open>The little-endian value of a run of bytes, and its two's complement reading.\<close>

fun leValue :: "byte list \<Rightarrow> int" where
  "leValue [] = 0"
| "leValue (x # xs) = uint x + 256 * leValue xs"

definition leBytes :: "byte list \<Rightarrow> int \<Rightarrow> nat \<Rightarrow> int" where
  "leBytes b off n = leValue (take n (drop (nat off) b))"

definition toSigned :: "nat \<Rightarrow> int \<Rightarrow> int" where
  "toSigned bits v = (if 2 ^ (bits - 1) \<le> v then v - 2 ^ bits else v)"

section \<open>The byte cursor (class BufferReader)\<close>

text \<open>
  Every message the parser can throw. The constructor stands for the message template, its
  arguments for the values the template interpolates. \<open>RangeError\<close> is the error Node's
  \<^verbatim>\<open>Buffer.read*\<close> methods throw for an offset below 0, \<open>CallStackExceeded\<close> the
  \<^verbatim>\<open>RangeError\<close> (maximum call stack size exceeded) of a call that spreads more arguments
  than the engine's stack holds.
\<close>

datatype error =
    EndOfBuffer int
  | EndOfBufferNeed int int
  | EndOfBufferVarint
  | EndOfBufferVarint64
  | EndOfBufferVaruint64
  | EndOfBufferString int
  | RangeError
  | CallStackExceeded
  | FileTooSmall
  | MissingMagic
  | InvalidSerializationHeader jsstring

record BufferReader =
  buffer :: "byte list"
  offset :: int

text \<open>
  A method of the cursor takes the cursor and returns what it returned or threw, together
  with the cursor as the method left it: a throw keeps every advance made before it.
\<close>

type_synonym ('a, 's) exn = "'s \<Rightarrow> (error + 'a) \<times> 's"
type_synonym 'a rd = "('a, BufferReader) exn"

definition returnE :: "'a \<Rightarrow> ('a, 's) exn" where
  "returnE v s = (Inr v, s)"

definition throwE :: "error \<Rightarrow> ('a, 's) exn" where
  "throwE e s = (Inl e, s)"

definition bindE :: "('a, 's) exn \<Rightarrow> ('a \<Rightarrow> ('b, 's) exn) \<Rightarrow> ('b, 's) exn" where
  "bindE m f s = (case m s of (Inl e, s') \<Rightarrow> (Inl e, s') | (Inr v, s') \<Rightarrow> f v s')"

definition whenE :: "bool \<Rightarrow> (unit, 's) exn \<Rightarrow> (unit, 's) exn" where
  "whenE c m = (if c then m else returnE ())"

text \<open>The state itself, for a condition that looks at the cursor.\<close>

definition getE :: "('s, 's) exn" where
  "getE s = (Inr s, s)"

definition remaining :: "BufferReader \<Rightarrow> int" where
  "remaining r = int (length (buffer r)) - offset r"

definition hasBytes :: "BufferReader \<Rightarrow> int \<Rightarrow> bool" where
  "hasBytes r count \<longleftrightarrow> offset r + count \<le> int (length (buffer r))"

definition advance :: "int \<Rightarrow> BufferReader \<Rightarrow> BufferReader" where
  "advance n r = r\<lparr>offset := offset r + n\<rparr>"

definition readByte :: "(byte option) rd" where
  "readByte r =
     (if \<not> hasBytes r 1 then (Inl (EndOfBuffer (offset r)), r)
      else (Inr (bufAt (buffer r) (offset r)), advance 1 r))"

definition peekByte :: "(byte option) rd" where
  "peekByte r =
     (if \<not> hasBytes r 1 then (Inl (EndOfBuffer (offset r)), r)
      else (Inr (bufAt (buffer r) (offset r)), r))"

text \<open>
  The fixed-width reads share one shape: the bounds check of the cursor, then Node's read
  (which refuses an offset below 0), then the advance.
\<close>

definition readFixed :: "nat \<Rightarrow> (int \<Rightarrow> int) \<Rightarrow> int rd" where
  "readFixed n conv r =
     (if \<not> hasBytes r (int n) then (Inl (EndOfBuffer (offset r)), r)
      else if offset r < 0 then (Inl RangeError, r)
      else (Inr (conv (leBytes (buffer r) (offset r) n)), advance (int n) r))"

definition readInt16LE :: "int rd" where
  "readInt16LE = readFixed 2 (toSigned 16)"

definition readUInt16LE :: "int rd" where
  "readUInt16LE = readFixed 2 id"

definition readInt32LE :: "int rd" where
  "readInt32LE = readFixed 4 (toSigned 32)"

definition readUInt32LE :: "int rd" where
  "readUInt32LE = readFixed 4 id"

definition readInt64LE :: "int rd" where
  "readInt64LE = readFixed 8 (toSigned 64)"

definition readUInt64LE :: "int rd" where
  "readUInt64LE = readFixed 8 id"

definition readBytes :: "int \<Rightarrow> (byte list) rd" where
  "readBytes count r =
     (if \<not> hasBytes r count then (Inl (EndOfBufferNeed (offset r) count), r)
      else (Inr (jsSlice (buffer r) (offset r) (offset r + count)), advance count r))"

text \<open>
  \<^verbatim>\<open>readVarUInt\<close>: at most five bytes, seven bits each, accumulated with 32-bit
  bitwise operators and read as unsigned by the final \<^verbatim>\<open>>>> 0\<close>.
\<close>

function readVarUIntLoop :: "32 word \<Rightarrow> nat \<Rightarrow> int rd" where
  "readVarUIntLoop result shift r =
     (if \<not> hasBytes r 1 then (Inl EndOfBufferVarint, r)
      else case readByte r of
        (Inl e, r') \<Rightarrow> (Inl e, r')
      | (Inr b, r') \<Rightarrow>
          (let result' = result OR push_bit shift (toInt32 b AND 0x7f);
               shift' = shift + 7
           in if toInt32 b AND 0x80 \<noteq> 0 \<and> shift' < 35
              then readVarUIntLoop result' shift' r'
              else (Inr (uint result'), r')))"
  by pat_completeness auto
termination
  by (relation "measure (\<lambda>(result, shift, r). 35 - shift)") auto

declare readVarUIntLoop.simps [simp del]

definition readVarUInt :: "int rd" where
  "readVarUInt = readVarUIntLoop 0 0"

text \<open>
  \<^verbatim>\<open>readVarInt64\<close> and \<^verbatim>\<open>readVarUInt64\<close>: at most ten bytes, accumulated in a
  \<^verbatim>\<open>bigint\<close>. The two differ in the message they throw only.
\<close>

function readVar64Loop :: "error \<Rightarrow> int \<Rightarrow> nat \<Rightarrow> int rd" where
  "readVar64Loop msg result shift r =
     (if \<not> hasBytes r 1 then (Inl msg, r)
      else case readByte r of
        (Inl e, r') \<Rightarrow> (Inl e, r')
      | (Inr b, r') \<Rightarrow>
          (let result' = result OR push_bit shift (uint (toInt32 b AND 0x7f));
               shift' = shift + 7
           in if toInt32 b AND 0x80 \<noteq> 0 \<and> shift' < 70
              then readVar64Loop msg result' shift' r'
              else (Inr result', r')))"
  by pat_completeness auto
termination
  by (relation "measure (\<lambda>(msg, result, shift, r). 70 - shift)") auto

declare readVar64Loop.simps [simp del]

definition readVarInt64 :: "int rd" where
  "readVarInt64 = readVar64Loop EndOfBufferVarint64 0 0"

definition readVarUInt64 :: "int rd" where
  "readVarUInt64 = readVar64Loop EndOfBufferVaruint64 0 0"

text \<open>
  The loop of \<^verbatim>\<open>readNullTerminatedUTF16\<close>: it runs while two bytes are left, stops at a
  zero unit, and collects the units read in \<^verbatim>\<open>chars\<close>.
\<close>

function readUTF16Loop :: "nat list \<Rightarrow> jsstring rd" where
  "readUTF16Loop chars r =
     (if hasBytes r 2
      then case readUInt16LE r of
        (Inl e, r') \<Rightarrow> (Inl e, r')
      | (Inr code, r') \<Rightarrow>
          (if code = 0 then (Inr chars, r') else readUTF16Loop (chars @ [nat code]) r')
      else (Inr chars, r))"
  by pat_completeness auto
termination
  by (relation "measure (\<lambda>(chars, r). nat (int (length (buffer r)) - offset r))")
    (auto simp: readUInt16LE_def readFixed_def hasBytes_def advance_def split: if_splits)

declare readUTF16Loop.simps [simp del]

text \<open>
  The loop ends in \<^verbatim>\<open>return String.fromCharCode(...chars)\<close>, which passes every unit as an
  argument of one call. The engine sets the arguments of a call on its stack and throws a
  \<^verbatim>\<open>RangeError\<close> when they do not fit; with Node's default stack that happens between
  120000 and 130000 arguments, and \<open>maxCallArguments\<close> fixes the bound at 125000. The cursor
  stays where the loop left it.
\<close>

definition maxCallArguments :: nat where
  "maxCallArguments = 125000"

definition fromCharCode :: "nat list \<Rightarrow> jsstring rd" where
  "fromCharCode chars r =
     (if maxCallArguments < length chars then (Inl CallStackExceeded, r) else (Inr chars, r))"

definition readNullTerminatedUTF16 :: "jsstring rd" where
  "readNullTerminatedUTF16 = bindE (readUTF16Loop []) fromCharCode"

definition readAsciiString :: "int \<Rightarrow> jsstring rd" where
  "readAsciiString len r =
     (if \<not> hasBytes r len then (Inl (EndOfBufferString len), r)
      else (Inr (jsToStringAscii (buffer r) (offset r) (offset r + len)), advance len r))"

definition skip :: "int \<Rightarrow> unit rd" where
  "skip count r =
     (if 0 < count
      then (Inr (), r\<lparr>offset := min (offset r + count) (int (length (buffer r)))\<rparr>)
      else (Inr (), r))"

text \<open>\<^verbatim>\<open>subReader\<close>: a fresh cursor at offset 0 over the next \<open>length\<close> bytes.\<close>

definition subReader :: "int \<Rightarrow> BufferReader rd" where
  "subReader len = bindE (readBytes len) (\<lambda>subBuf. returnE \<lparr>buffer = subBuf, offset = 0\<rparr>)"

definition newReader :: "byte list \<Rightarrow> BufferReader" where
  "newReader b = \<lparr>buffer = b, offset = 0\<rparr>"

section \<open>Progress of the cursor\<close>

text \<open>
  Two properties of a cursor computation that the loops of the parser rest on: it never moves
  the cursor back nor swaps the buffer, and, when it returns, it has moved the cursor forward.
\<close>

definition inBuffer :: "BufferReader \<Rightarrow> bool" where
  "inBuffer r \<longleftrightarrow> offset r \<le> int (length (buffer r))"

definition keeps :: "'a rd \<Rightarrow> bool" where
  "keeps m \<longleftrightarrow> (\<forall>r x r'. inBuffer r \<longrightarrow> m r = (x, r') \<longrightarrow>
      buffer r' = buffer r \<and> offset r \<le> offset r' \<and> inBuffer r')"

definition moves :: "'a rd \<Rightarrow> bool" where
  "moves m \<longleftrightarrow> (\<forall>r v r'. inBuffer r \<longrightarrow> m r = (Inr v, r') \<longrightarrow>
      buffer r' = buffer r \<and> offset r < offset r' \<and> inBuffer r')"

lemma keepsD:
  "keeps m \<Longrightarrow> inBuffer r \<Longrightarrow> m r = (x, r') \<Longrightarrow>
     buffer r' = buffer r \<and> offset r \<le> offset r' \<and> inBuffer r'"
  unfolding keeps_def by blast

lemma movesD:
  "moves m \<Longrightarrow> inBuffer r \<Longrightarrow> m r = (Inr v, r') \<Longrightarrow>
     buffer r' = buffer r \<and> offset r < offset r' \<and> inBuffer r'"
  unfolding moves_def by blast

lemma bindE_Inr:
  "bindE m f s = (Inr v, s') \<Longrightarrow> \<exists>w s1. m s = (Inr w, s1) \<and> f w s1 = (Inr v, s')"
  by (auto simp: bindE_def split: prod.splits sum.splits)

lemma bindE_cases:
  "bindE m f s = (res, s') \<Longrightarrow>
     (\<exists>e. m s = (Inl e, s') \<and> res = Inl e) \<or> (\<exists>w s1. m s = (Inr w, s1) \<and> f w s1 = (res, s'))"
  by (auto simp: bindE_def split: prod.splits sum.splits)

lemma keeps_returnE [intro!, simp]: "keeps (returnE v)"
  by (simp add: keeps_def returnE_def)

lemma keeps_throwE [intro!, simp]: "keeps (throwE e)"
  by (simp add: keeps_def throwE_def)

lemma keeps_getE [intro!, simp]: "keeps getE"
  by (simp add: keeps_def getE_def)

lemma keeps_bindE [intro!]: "keeps m \<Longrightarrow> (\<And>v. keeps (f v)) \<Longrightarrow> keeps (bindE m f)"
proof -
  assume km: "keeps m" and kf: "\<And>v. keeps (f v)"
  have "buffer r' = buffer r \<and> offset r \<le> offset r' \<and> inBuffer r'"
    if ib: "inBuffer r" and b: "bindE m f r = (x, r')" for r x r'
  proof -
    from bindE_cases[OF b] consider
      (throws) e where "m r = (Inl e, r')"
    | (returns) w s1 where "m r = (Inr w, s1)" "f w s1 = (x, r')"
    by blast
  then show ?thesis
  proof cases
    case throws
    from keepsD[OF km ib throws] show ?thesis .
  next
    case returns
    from keepsD[OF km ib returns(1)]
    have 1: "buffer s1 = buffer r" "offset r \<le> offset s1" "inBuffer s1"
      by simp_all
    from keepsD[OF kf 1(3) returns(2)] 1 show ?thesis by simp
  qed
  qed
  then show ?thesis unfolding keeps_def by blast
qed

lemma keeps_if [intro!]: "(c \<Longrightarrow> keeps m) \<Longrightarrow> (\<not> c \<Longrightarrow> keeps n) \<Longrightarrow> keeps (if c then m else n)"
  by simp

lemma keeps_whenE [intro!]: "keeps m \<Longrightarrow> keeps (whenE c m)"
  by (simp add: whenE_def)

lemma keeps_case_prod [intro!]: "(\<And>a b. keeps (f a b)) \<Longrightarrow> keeps (case_prod f x)"
  by (cases x) simp

lemma keeps_readByte [intro!, simp]: "keeps readByte"
  by (auto simp: keeps_def readByte_def advance_def inBuffer_def hasBytes_def split: if_splits)

lemma keeps_peekByte [intro!, simp]: "keeps peekByte"
  by (auto simp: keeps_def peekByte_def split: if_splits)

lemma keeps_readFixed [intro!, simp]: "keeps (readFixed n conv)"
  by (auto simp: keeps_def readFixed_def advance_def inBuffer_def hasBytes_def split: if_splits)

lemma keeps_fixed [intro!, simp]:
  "keeps readInt16LE" "keeps readUInt16LE" "keeps readInt32LE" "keeps readUInt32LE"
  "keeps readInt64LE" "keeps readUInt64LE"
  by (simp_all add: readInt16LE_def readUInt16LE_def readInt32LE_def readUInt32LE_def
      readInt64LE_def readUInt64LE_def)

lemma keeps_readBytes [intro!]: "0 \<le> n \<Longrightarrow> keeps (readBytes n)"
  by (auto simp: keeps_def readBytes_def advance_def inBuffer_def hasBytes_def split: if_splits)

lemma keeps_subReader [intro!]: "0 \<le> len \<Longrightarrow> keeps (subReader len)"
  by (auto simp: subReader_def)

lemma keeps_skip [intro!, simp]: "keeps (skip n)"
  by (auto simp: keeps_def skip_def inBuffer_def split: if_splits)

lemma readVarUIntLoop_keeps:
  "readVarUIntLoop res sh r = (x, r') \<Longrightarrow> inBuffer r \<Longrightarrow>
     buffer r' = buffer r \<and> offset r \<le> offset r' \<and> inBuffer r'"
proof (induction res sh r rule: readVarUIntLoop.induct)
  case (1 acc shift r)
  show ?case
  proof (cases "hasBytes r 1")
    case False
    with "1.prems" show ?thesis by (simp add: readVarUIntLoop.simps[of acc shift r])
  next
    case True
    define b where "b = bufAt (buffer r) (offset r)"
    define res' where "res' = acc OR push_bit shift (toInt32 b AND 0x7f)"
    define c where "c \<longleftrightarrow> toInt32 b AND 0x80 \<noteq> 0 \<and> shift + 7 < 35"
    have rb: "readByte r = (Inr b, advance 1 r)" using True by (simp add: readByte_def b_def)
    have step: "readVarUIntLoop acc shift r =
        (if c then readVarUIntLoop res' (shift + 7) (advance 1 r) else (Inr (uint res'), advance 1 r))"
      by (subst readVarUIntLoop.simps) (simp add: True rb Let_def res'_def c_def)
    show ?thesis
    proof (cases c)
      case c: True
      with "1.prems" step have "readVarUIntLoop res' (shift + 7) (advance 1 r) = (x, r')"
        by simp
      from "1.IH"[OF _ rb[symmetric] refl res'_def refl c[unfolded c_def] this] True
      show ?thesis by (auto simp add: advance_def inBuffer_def hasBytes_def)
    next
      case False
      with "1.prems" step True show ?thesis by (auto simp: advance_def inBuffer_def hasBytes_def)
    qed
  qed
qed

lemma keeps_readVarUInt [intro!, simp]: "keeps readVarUInt"
  unfolding keeps_def readVarUInt_def using readVarUIntLoop_keeps by blast

lemma readVar64Loop_keeps:
  "readVar64Loop msg res sh r = (x, r') \<Longrightarrow> inBuffer r \<Longrightarrow>
     buffer r' = buffer r \<and> offset r \<le> offset r' \<and> inBuffer r'"
proof (induction msg res sh r rule: readVar64Loop.induct)
  case (1 msg acc shift r)
  show ?case
  proof (cases "hasBytes r 1")
    case False
    with "1.prems" show ?thesis by (simp add: readVar64Loop.simps[of msg acc shift r])
  next
    case True
    define b where "b = bufAt (buffer r) (offset r)"
    define res' where "res' = acc OR push_bit shift (uint (toInt32 b AND 0x7f))"
    define c where "c \<longleftrightarrow> toInt32 b AND 0x80 \<noteq> 0 \<and> shift + 7 < 70"
    have rb: "readByte r = (Inr b, advance 1 r)" using True by (simp add: readByte_def b_def)
    have step: "readVar64Loop msg acc shift r =
        (if c then readVar64Loop msg res' (shift + 7) (advance 1 r) else (Inr res', advance 1 r))"
      by (subst readVar64Loop.simps) (simp add: True rb Let_def res'_def c_def)
    show ?thesis
    proof (cases c)
      case c: True
      with "1.prems" step have "readVar64Loop msg res' (shift + 7) (advance 1 r) = (x, r')"
        by simp
      from "1.IH"[OF _ rb[symmetric] refl res'_def refl c[unfolded c_def] this] True
      show ?thesis by (auto simp add: advance_def inBuffer_def hasBytes_def)
    next
      case False
      with "1.prems" step True show ?thesis by (auto simp: advance_def inBuffer_def hasBytes_def)
    qed
  qed
qed

lemma keeps_readVar64 [intro!, simp]: "keeps readVarInt64" "keeps readVarUInt64"
  unfolding keeps_def readVarInt64_def readVarUInt64_def using readVar64Loop_keeps by blast+

lemma readUTF16Loop_keeps:
  "readUTF16Loop chars r = (x, r') \<Longrightarrow> inBuffer r \<Longrightarrow>
     buffer r' = buffer r \<and> offset r \<le> offset r' \<and> inBuffer r'"
proof (induction chars r rule: readUTF16Loop.induct)
  case (1 chars r)
  show ?case
  proof (cases "hasBytes r 2")
    case False
    with "1.prems" show ?thesis by (simp add: readUTF16Loop.simps[of chars r])
  next
    case True
    obtain y r1 where rd: "readUInt16LE r = (y, r1)" by (cases "readUInt16LE r")
    have k: "buffer r1 = buffer r \<and> offset r \<le> offset r1 \<and> inBuffer r1"
      using keepsD[OF keeps_fixed(2) "1.prems"(2) rd] .
    show ?thesis
    proof (cases y)
      case (Inl e)
      with "1.prems" True rd k show ?thesis by (simp add: readUTF16Loop.simps[of chars r])
    next
      case (Inr code)
      show ?thesis
      proof (cases "code = 0")
        case True
        with "1.prems" \<open>hasBytes r 2\<close> rd k Inr show ?thesis
          by (simp add: readUTF16Loop.simps[of chars r])
      next
        case False
        with "1.prems" \<open>hasBytes r 2\<close> rd Inr
        have "readUTF16Loop (chars @ [nat code]) r1 = (x, r')"
          by (simp add: readUTF16Loop.simps[of chars r])
        from "1.IH"[OF True rd[unfolded Inr, symmetric] refl False this] k
        show ?thesis by simp
      qed
    qed
  qed
qed

lemma keeps_fromCharCode [intro!, simp]: "keeps (fromCharCode chars)"
  by (auto simp: keeps_def fromCharCode_def)

lemma keeps_readUTF16Loop: "keeps (readUTF16Loop chars)"
  unfolding keeps_def using readUTF16Loop_keeps by blast

lemma keeps_readUTF16 [intro!, simp]: "keeps readNullTerminatedUTF16"
  unfolding readNullTerminatedUTF16_def by (intro keeps_bindE keeps_readUTF16Loop keeps_fromCharCode)

lemma moves_readByte [intro!, simp]: "moves readByte"
  by (auto simp: moves_def readByte_def advance_def inBuffer_def hasBytes_def split: if_splits)

lemma moves_readFixed [intro!]: "0 < n \<Longrightarrow> moves (readFixed n conv)"
  by (auto simp: moves_def readFixed_def advance_def inBuffer_def hasBytes_def split: if_splits)

lemma moves_fixed [intro!, simp]:
  "moves readInt16LE" "moves readUInt16LE" "moves readInt32LE" "moves readUInt32LE"
  "moves readInt64LE" "moves readUInt64LE"
  by (auto simp: readInt16LE_def readUInt16LE_def readInt32LE_def readUInt32LE_def
      readInt64LE_def readUInt64LE_def)

lemma moves_bindE [intro!]: "moves m \<Longrightarrow> (\<And>v. keeps (f v)) \<Longrightarrow> moves (bindE m f)"
proof -
  assume mm: "moves m" and kf: "\<And>v. keeps (f v)"
  have "buffer r' = buffer r \<and> offset r < offset r' \<and> inBuffer r'"
    if ib: "inBuffer r" and b: "bindE m f r = (Inr v, r')" for r v r'
  proof -
  from bindE_Inr[OF b] obtain w s1 where m: "m r = (Inr w, s1)" and f: "f w s1 = (Inr v, r')"
    by blast
  from movesD[OF mm ib m] have 1: "buffer s1 = buffer r" "offset r < offset s1" "inBuffer s1"
    by simp_all
  from keepsD[OF kf 1(3) f] 1 show ?thesis
    by simp
  qed
  then show ?thesis unfolding moves_def by blast
qed

section \<open>The data model\<close>

text \<open>
  The interfaces of the parser, field by field. A \<^verbatim>\<open>Map\<close> iterates in insertion order
  and \<^verbatim>\<open>set\<close> on a present key keeps its place, so a \<^verbatim>\<open>Map\<close> is an association list
  with \<^const>\<open>map_of\<close> for \<^verbatim>\<open>get\<close> and \<^const>\<open>AList.update\<close> for \<^verbatim>\<open>set\<close>. A counter that
  starts at 0 and is only ever incremented is a \<^typ>\<open>nat\<close>. Where two interfaces share a
  field name, the lesser one carries a prefix. \<^verbatim>\<open>syncTimeUTC\<close> holds the seven arguments
  handed to \<^verbatim>\<open>Date.UTC\<close>; the calendar arithmetic of \<^verbatim>\<open>Date\<close> is outside the model.
\<close>

record TraceInfo =
  syncTimeUTC :: "int \<times> int \<times> int \<times> int \<times> int \<times> int \<times> int"
  syncTimeTicks :: int
  tickFrequency :: int
  pointerSize :: int
  processId :: int
  numberOfProcessors :: int
  cpuSamplingRate :: int

record FieldMetadata =
  fm_name :: jsstring
  typeCode :: int

record EventMetadata =
  metadataId :: int
  providerName :: jsstring
  eventId :: int
  eventName :: jsstring
  md_keywords :: int
  version :: int
  level :: int
  opcode :: int
  md_fields :: "FieldMetadata list"

record AllocationEvent =
  ae_typeName :: jsstring
  ae_size :: int
  ae_timestamp :: int
  stackTrace :: "jsstring list option"

record AllocationInfo =
  typeName :: jsstring
  count :: nat
  totalSize :: int
  ai_allocations :: "AllocationEvent list"

record StackInfo =
  stackId :: int
  addresses :: "int list"

record MethodInfo =
  methodId :: int
  moduleId :: int
  methodStartAddress :: int
  methodSize :: int
  methodToken :: int
  methodFlags :: int
  methodNamespace :: jsstring
  methodName :: jsstring
  methodSignature :: jsstring

record MethodProfile =
  mp_methodName :: jsstring
  inclusiveCount :: nat
  exclusiveCount :: nat
  inclusiveTimeMs :: nat
  exclusiveTimeMs :: nat

text \<open>The \<^verbatim>\<open>{ count, size }\<close> and \<^verbatim>\<open>{ count, size, types }\<close> objects of the aggregator.\<close>

record CountSize =
  cs_count :: nat
  cs_size :: int

record StackSample =
  ss_count :: nat
  ss_size :: int
  ss_types :: "(jsstring \<times> CountSize) list"

record TraceEvent =
  te_metadataId :: int
  te_threadId :: int
  te_timestamp :: int
  te_stackId :: int
  te_payload :: "byte list"

record DebugInfo =
  totalEvents :: nat
  allocationEvents :: nat
  providers :: "jsstring list"
  eventCounts :: "(jsstring \<times> nat) list"
  samplingIntervalMs :: nat

text \<open>An entry of an error list: the message template and what it interpolates.\<close>

datatype errorEntry =
    ParseError error
  | UnknownTypeIndex int
  | ErrorParsing jsstring error
  | ErrorProcessing jsstring error

record ParseResult =
  traceInfo :: "TraceInfo option"
  metadata :: "(int \<times> EventMetadata) list"
  allocations :: "(jsstring \<times> AllocationInfo) list"
  events :: "TraceEvent list"
  stacks :: "(int \<times> StackInfo) list"
  methods :: "(int \<times> MethodInfo) list"
  methodsByAddress :: "(int \<times> MethodInfo) list"
  methodProfiles :: "(jsstring \<times> MethodProfile) list"
  allocationSamples :: "(int \<times> StackSample) list"
  typeStackDistribution :: "(jsstring \<times> (int \<times> CountSize) list) list"
  errors :: "errorEntry list"
  debugInfo :: DebugInfo

record TypeInfo =
  typeIndex :: nat
  tp_version :: int
  minReaderVersion :: int
  tp_typeName :: jsstring

text \<open>
  The private fields of \<^verbatim>\<open>NetTraceParser\<close> (\<open>this_\<close>, and \<open>dbg_\<close> for those of
  \<^verbatim>\<open>this.debugInfo\<close>), together with the \<^verbatim>\<open>ParseResult\<close> that \<^verbatim>\<open>parse\<close> creates and
  hands to every method.
\<close>

record NetTraceParser =
  this_reader :: BufferReader
  this_metadata :: "(int \<times> EventMetadata) list"
  this_stacks :: "(int \<times> StackInfo) list"
  this_pointerSize :: int
  this_processId :: int
  this_errors :: "errorEntry list"
  this_typeRegistry :: "(int \<times> TypeInfo) list"
  this_nextTypeIndex :: nat
  dbg_totalEvents :: nat
  dbg_allocationEvents :: nat
  dbg_providers :: "jsstring list"
  dbg_metadataBlocks :: nat
  dbg_eventBlocks :: nat
  dbg_eventCountsByMetadataId :: "(int \<times> nat) list"
  this_cpuSamples :: "(int \<times> nat) list"
  result :: ParseResult

text \<open>\<^verbatim>\<open>Set.add\<close>: a set of strings iterates in insertion order.\<close>

definition setAdd :: "'a \<Rightarrow> 'a list \<Rightarrow> 'a list" where
  "setAdd x xs = (if x \<in> set xs then xs else xs @ [x])"

section \<open>Constants of the parser\<close>

definition DOTNET_RUNTIME_PROVIDER :: jsstring where
  "DOTNET_RUNTIME_PROVIDER = ascii ''Microsoft-Windows-DotNETRuntime''"

definition DOTNET_RUNTIME_RUNDOWN_PROVIDER :: jsstring where
  "DOTNET_RUNTIME_RUNDOWN_PROVIDER = ascii ''Microsoft-Windows-DotNETRuntimeRundown''"

definition SAMPLE_PROFILER_PROVIDER :: jsstring where
  "SAMPLE_PROFILER_PROVIDER = ascii ''Microsoft-DotNETCore-SampleProfiler''"

definition GC_ALLOCATION_TICK_EVENT_ID :: int where
  "GC_ALLOCATION_TICK_EVENT_ID = 10"

definition METHOD_LOAD_VERBOSE_EVENT_ID :: int where
  "METHOD_LOAD_VERBOSE_EVENT_ID = 143"

definition METHOD_JITTING_STARTED_EVENT_ID :: int where
  "METHOD_JITTING_STARTED_EVENT_ID = 145"

definition METHOD_DC_END_VERBOSE_EVENT_ID :: int where
  "METHOD_DC_END_VERBOSE_EVENT_ID = 144"

text \<open>The tags of \<^verbatim>\<open>enum SerializationTag\<close> that the parser names.\<close>

definition NullReference :: byte where "NullReference = 1"
definition BeginObject :: byte where "BeginObject = 4"
definition BeginPrivateObject :: byte where "BeginPrivateObject = 5"
definition EndObject :: byte where "EndObject = 6"
definition Blob :: byte where "Blob = 14"

text \<open>\<^verbatim>\<open>flags & m\<close> used as a condition, for a flags byte read by \<^verbatim>\<open>readByte\<close>.\<close>

definition flagSet :: "byte option \<Rightarrow> 32 word \<Rightarrow> bool" where
  "flagSet b m \<longleftrightarrow> toInt32 b AND m \<noteq> 0"

text \<open>\<^verbatim>\<open>map.get(k) || 0\<close> for a map of counters.\<close>

definition orZero :: "nat option \<Rightarrow> nat" where
  "orZero v = (case v of None \<Rightarrow> 0 | Some c \<Rightarrow> c)"

text \<open>\<^verbatim>\<open>x.toString(16)\<close> of a \<^verbatim>\<open>bigint\<close>, and the \<^verbatim>\<open>0x\<close> form the parser prints.\<close>

definition hexDigit :: "nat \<Rightarrow> char" where
  "hexDigit d = (''0123456789abcdef'' ! d)"

fun hexDigits :: "nat \<Rightarrow> string" where
  "hexDigits n = (if n < 16 then [hexDigit n] else hexDigits (n div 16) @ [hexDigit (n mod 16)])"

declare hexDigits.simps [simp del]

definition toString16 :: "int \<Rightarrow> jsstring" where
  "toString16 x = ascii (if x < 0 then ''-'' @ hexDigits (nat (- x)) else hexDigits (nat x))"

definition hexAddress :: "int \<Rightarrow> jsstring" where
  "hexAddress addr = ascii ''0x'' @ toString16 addr"

section \<open>Metadata blocks\<close>

text \<open>
  The header state that \<^verbatim>\<open>parseMetadataBlock\<close> creates and \<^verbatim>\<open>parseMetadataEvent\<close>
  updates in place.
\<close>

record HeaderState =
  hs_metadataId :: int
  hs_sequenceNumber :: int
  hs_captureThreadId :: int
  hs_threadId :: int
  hs_stackId :: int
  hs_timestamp :: int
  hs_payloadSize :: int

text \<open>The reads of \<^verbatim>\<open>parseMetadataPayload\<close> up to \<^verbatim>\<open>level\<close>.\<close>

definition readMetadataHead :: "(int \<times> jsstring \<times> int \<times> jsstring \<times> int \<times> int \<times> int) rd" where
  "readMetadataHead =
     bindE readInt32LE (\<lambda>payloadMetadataId.
     bindE readNullTerminatedUTF16 (\<lambda>providerName.
     bindE readInt32LE (\<lambda>eventId.
     bindE readNullTerminatedUTF16 (\<lambda>eventName.
     bindE readInt64LE (\<lambda>keywords.
     bindE readInt32LE (\<lambda>version.
     bindE readInt32LE (\<lambda>level.
     returnE (payloadMetadataId, providerName, eventId, eventName, keywords, version, level))))))))"

text \<open>The loop over the fields: \<^verbatim>\<open>for (i = 0; i < fieldCount && reader.remaining > 4; i++)\<close>.\<close>

function readMetadataFields :: "int \<Rightarrow> int \<Rightarrow> FieldMetadata list \<Rightarrow> (FieldMetadata list) rd" where
  "readMetadataFields i fieldCount acc r =
     (if i < fieldCount \<and> 4 < remaining r
      then case readInt32LE r of
        (Inl e, r1) \<Rightarrow> (Inl e, r1)
      | (Inr tc, r1) \<Rightarrow>
          (case (if tc = 19 \<and> 4 \<le> remaining r1 then readInt32LE r1 else (Inr 0, r1)) of
             (Inl e, r2) \<Rightarrow> (Inl e, r2)
           | (Inr elementType, r2) \<Rightarrow>
               (case readNullTerminatedUTF16 r2 of
                  (Inl e, r3) \<Rightarrow> (Inl e, r3)
                | (Inr fieldName, r3) \<Rightarrow>
                    readMetadataFields (i + 1) fieldCount
                      (acc @ [\<lparr>fm_name = fieldName, typeCode = tc\<rparr>]) r3))
      else (Inr acc, r))"
  by pat_completeness auto
termination
  by (relation "measure (\<lambda>(i, fieldCount, acc, r). nat (fieldCount - i))") auto

declare readMetadataFields.simps [simp del]

text \<open>
  \<^verbatim>\<open>parseMetadataPayload\<close>: the whole body is one \<^verbatim>\<open>try\<close> whose \<^verbatim>\<open>catch\<close> only logs in
  debug mode, so a throw leaves the parser as the statements before it made it.
\<close>

definition parseMetadataPayload :: "BufferReader \<Rightarrow> NetTraceParser \<Rightarrow> NetTraceParser" where
  "parseMetadataPayload reader p =
     (case readMetadataHead reader of
        (Inl e, r1) \<Rightarrow> p
      | (Inr (payloadMetadataId, providerName', eventId', eventName', keywords, version', level'), r1) \<Rightarrow>
          (let p1 = p\<lparr>dbg_providers := setAdd providerName' (dbg_providers p)\<rparr> in
           case (if 4 \<le> remaining r1
                 then bindE readInt32LE (\<lambda>fieldCount. readMetadataFields 0 fieldCount []) r1
                 else (Inr [], r1)) of
             (Inl e, r2) \<Rightarrow> p1
           | (Inr fields', r2) \<Rightarrow>
               p1\<lparr>this_metadata :=
                    AList.update payloadMetadataId
                      \<lparr>metadataId = payloadMetadataId, providerName = providerName',
                       eventId = eventId', eventName = eventName', md_keywords = keywords,
                       version = version', level = level', opcode = 0, md_fields = fields'\<rparr>
                      (this_metadata p1)\<rparr>))"

text \<open>
  The header of a metadata event in its two encodings. The source updates the state field by
  field; the caller drops the state when a read throws, so the model builds the new state at
  the end.
\<close>

definition readMetadataEventHeader :: "bool \<Rightarrow> HeaderState \<Rightarrow> HeaderState rd" where
  "readMetadataEventHeader compressed state =
     (if \<not> compressed then
        bindE readInt32LE (\<lambda>eventSize.
        bindE readInt32LE (\<lambda>metadataIdWithFlags.
        bindE readInt32LE (\<lambda>sequenceNumber.
        bindE readInt64LE (\<lambda>threadId.
        bindE readInt64LE (\<lambda>captureThreadId.
        bindE readInt32LE (\<lambda>procNumber.
        bindE readInt32LE (\<lambda>stackId.
        bindE readInt64LE (\<lambda>timestamp.
        bindE (skip 16) (\<lambda>_.
        bindE (skip 16) (\<lambda>_.
        bindE readInt32LE (\<lambda>payloadSize.
        returnE \<lparr>hs_metadataId = metadataIdWithFlags AND 0x7FFFFFFF,
                 hs_sequenceNumber = sequenceNumber, hs_captureThreadId = captureThreadId,
                 hs_threadId = threadId, hs_stackId = stackId, hs_timestamp = timestamp,
                 hs_payloadSize = payloadSize\<rparr>)))))))))))
      else
        bindE readByte (\<lambda>flags.
        bindE (if flagSet flags 0x01 then readVarUInt else returnE (hs_metadataId state))
          (\<lambda>metadataId.
        bindE (if flagSet flags 0x02
               then bindE readVarUInt (\<lambda>seqDelta.
                    bindE readVarInt64 (\<lambda>captureThreadId.
                    bindE readVarUInt (\<lambda>processorNumber.
                    returnE (hs_sequenceNumber state + (seqDelta + 1), captureThreadId))))
               else returnE (if metadataId \<noteq> 0 then hs_sequenceNumber state + 1
                             else hs_sequenceNumber state, hs_captureThreadId state))
          (\<lambda>(sequenceNumber, captureThreadId).
        bindE (if flagSet flags 0x04 then readVarInt64 else returnE (hs_threadId state))
          (\<lambda>threadId.
        bindE (if flagSet flags 0x08 then readVarUInt else returnE (hs_stackId state))
          (\<lambda>stackId.
        bindE readVarUInt64 (\<lambda>timestampDelta.
        bindE (whenE (flagSet flags 0x10) (skip 16)) (\<lambda>_.
        bindE (whenE (flagSet flags 0x20) (skip 16)) (\<lambda>_.
        bindE (if flagSet flags 0x80 then readVarUInt else returnE (hs_payloadSize state))
          (\<lambda>payloadSize.
        returnE \<lparr>hs_metadataId = metadataId, hs_sequenceNumber = sequenceNumber,
                 hs_captureThreadId = captureThreadId, hs_threadId = threadId,
                 hs_stackId = stackId, hs_timestamp = hs_timestamp state + timestampDelta,
                 hs_payloadSize = payloadSize\<rparr>))))))))))"

definition parseMetadataEvent ::
  "bool \<Rightarrow> HeaderState \<Rightarrow> NetTraceParser \<Rightarrow> (HeaderState \<times> NetTraceParser) rd" where
  "parseMetadataEvent compressed state p =
     bindE (readMetadataEventHeader compressed state) (\<lambda>state'.
     bindE getE (\<lambda>reader.
       if 0 < hs_payloadSize state' \<and> hasBytes reader (hs_payloadSize state')
       then bindE (subReader (hs_payloadSize state'))
              (\<lambda>payloadReader. returnE (state', parseMetadataPayload payloadReader p))
       else returnE (state', p)))"

lemma keeps_readMetadataEventHeader: "keeps (readMetadataEventHeader c st)"
  unfolding readMetadataEventHeader_def
  by (intro keeps_if keeps_bindE keeps_case_prod keeps_whenE) simp_all

lemma moves_readMetadataEventHeader: "moves (readMetadataEventHeader c st)"
  unfolding readMetadataEventHeader_def
  by (cases c; simp; intro moves_bindE keeps_if keeps_bindE keeps_case_prod keeps_whenE; simp)

lemma moves_parseMetadataEvent: "moves (parseMetadataEvent c st p)"
  unfolding parseMetadataEvent_def
  by (intro moves_bindE moves_readMetadataEventHeader keeps_if keeps_bindE keeps_subReader)
    simp_all

text \<open>
  The loop of \<^verbatim>\<open>parseMetadataBlock\<close>: \<^verbatim>\<open>while (reader.remaining > 0)\<close>, left by
  \<^verbatim>\<open>break\<close> at the first event that throws.
\<close>

function parseMetadataEvents ::
  "bool \<Rightarrow> HeaderState \<Rightarrow> NetTraceParser \<Rightarrow> BufferReader \<Rightarrow> NetTraceParser" where
  "parseMetadataEvents compressed state p reader =
     (if 0 < remaining reader
      then case parseMetadataEvent compressed state p reader of
        (Inl e, reader') \<Rightarrow> p
      | (Inr (state', p'), reader') \<Rightarrow> parseMetadataEvents compressed state' p' reader'
      else p)"
  by pat_completeness auto
termination
proof (relation "measure (\<lambda>(c, st, p, r). nat (remaining r))", goal_cases)
  case 1
  show ?case by simp
next
  case (2 compressed state p reader x reader' y state' p')
  then have ib: "inBuffer reader"
    and eq: "parseMetadataEvent compressed state p reader = (Inr (state', p'), reader')"
    by (simp_all add: remaining_def inBuffer_def)
  from movesD[OF moves_parseMetadataEvent ib eq] 2(1) show ?case
    by (simp add: remaining_def)
qed

declare parseMetadataEvents.simps [simp del]

text \<open>
  \<^verbatim>\<open>parseMetadataBlock\<close>: a throw while reading the block header leaves the method (and is
  caught in \<^verbatim>\<open>processBlock\<close>); nothing has been changed by then.
\<close>

definition parseMetadataBlock :: "byte list \<Rightarrow> NetTraceParser \<Rightarrow> error + NetTraceParser" where
  "parseMetadataBlock data p =
     (case bindE readInt16LE (\<lambda>headerSize.
           bindE readInt16LE (\<lambda>flags.
           bindE (whenE (4 < headerSize) (skip (headerSize - 4))) (\<lambda>_.
           returnE (flags AND 1 \<noteq> 0)))) (newReader data) of
        (Inl e, reader) \<Rightarrow> Inl e
      | (Inr compressed, reader) \<Rightarrow>
          Inr (parseMetadataEvents compressed
                 \<lparr>hs_metadataId = 0, hs_sequenceNumber = 0, hs_captureThreadId = 0,
                  hs_threadId = 0, hs_stackId = 0, hs_timestamp = 0, hs_payloadSize = 0\<rparr>
                 p reader))"

section \<open>Stack blocks\<close>

text \<open>
  \<^verbatim>\<open>j < Math.floor(stackSize / this.pointerSize)\<close>: the quotient of a positive size by 0
  is \<open>Infinity\<close>, that of 0 by 0 is \<open>NaN\<close>, which compares false.
\<close>

definition belowNumAddrs :: "int \<Rightarrow> int \<Rightarrow> int \<Rightarrow> bool" where
  "belowNumAddrs j stackSize ptrSize =
     (if ptrSize = 0 then 0 < stackSize else j < stackSize div ptrSize)"

text \<open>The inner loop of \<^verbatim>\<open>parseStackBlock\<close>, which reads the addresses of one stack.\<close>

function readAddresses :: "int \<Rightarrow> int \<Rightarrow> int \<Rightarrow> int list \<Rightarrow> (int list) rd" where
  "readAddresses ptrSize stackSize j acc r =
     (if belowNumAddrs j stackSize ptrSize \<and> hasBytes r ptrSize
      then case (if ptrSize = 8 then readUInt64LE r else readUInt32LE r) of
        (Inl e, r') \<Rightarrow> (Inl e, r')
      | (Inr a, r') \<Rightarrow> readAddresses ptrSize stackSize (j + 1) (acc @ [a]) r'
      else (Inr acc, r))"
  by pat_completeness auto
termination
  by (relation "measure (\<lambda>(ptrSize, stackSize, j, acc, r). nat (remaining r))")
    (auto simp: readUInt64LE_def readUInt32LE_def readFixed_def hasBytes_def advance_def
      remaining_def split: if_splits)

declare readAddresses.simps [simp del]

text \<open>
  The outer loop: \<^verbatim>\<open>for (i = 0; i < count && reader.remaining >= 4; i++)\<close>. A throw
  leaves the loop and the method (the \<^verbatim>\<open>catch\<close> is empty), keeping the stacks stored so far.
\<close>

function parseStacks :: "int \<Rightarrow> int \<Rightarrow> int \<Rightarrow> NetTraceParser \<Rightarrow> BufferReader \<Rightarrow> NetTraceParser" where
  "parseStacks i cnt currentId p r =
     (if i < cnt \<and> 4 \<le> remaining r
      then case readUInt32LE r of
        (Inl e, r1) \<Rightarrow> p
      | (Inr stackSize, r1) \<Rightarrow>
          (if stackSize = 0 \<or> \<not> hasBytes r1 stackSize then p
           else case readAddresses (this_pointerSize p) stackSize 0 [] r1 of
             (Inl e, r2) \<Rightarrow> p
           | (Inr addrs, r2) \<Rightarrow>
               parseStacks (i + 1) cnt (currentId + 1)
                 (p\<lparr>this_stacks :=
                      AList.update currentId \<lparr>stackId = currentId, addresses = addrs\<rparr>
                        (this_stacks p)\<rparr>) r2)
      else p)"
  by pat_completeness auto
termination
  by (relation "measure (\<lambda>(i, cnt, currentId, p, r). nat (cnt - i))") auto

declare parseStacks.simps [simp del]

definition parseStackBlock :: "byte list \<Rightarrow> NetTraceParser \<Rightarrow> NetTraceParser" where
  "parseStackBlock data p =
     (case bindE readUInt32LE (\<lambda>firstId.
           bindE readUInt32LE (\<lambda>cnt. returnE (firstId, cnt))) (newReader data) of
        (Inl e, reader) \<Rightarrow> p
      | (Inr (firstId, cnt), reader) \<Rightarrow> parseStacks 0 cnt firstId p reader)"

section \<open>The allocation aggregator\<close>

definition addAllocation :: "jsstring \<Rightarrow> int \<Rightarrow> int \<Rightarrow> int \<Rightarrow> NetTraceParser \<Rightarrow> NetTraceParser" where
  "addAllocation tn sz ts sid p =
     (let res = result p;
          allocInfo =
            (case map_of (allocations res) tn of
               None \<Rightarrow> \<lparr>typeName = tn, count = 0, totalSize = 0, ai_allocations = []\<rparr>
             | Some a \<Rightarrow> a);
          allocInfo1 = allocInfo\<lparr>count := count allocInfo + 1,
                                 totalSize := totalSize allocInfo + sz\<rparr>;
          samples =
            (if 0 < sid
             then (case map_of (allocationSamples res) sid of
                     Some existing \<Rightarrow>
                       AList.update sid
                         (existing\<lparr>ss_count := ss_count existing + 1,
                                   ss_size := ss_size existing + sz,
                                   ss_types :=
                                     (case map_of (ss_types existing) tn of
                                        Some typeInfo \<Rightarrow>
                                          AList.update tn
                                            (typeInfo\<lparr>cs_count := cs_count typeInfo + 1,
                                                       cs_size := cs_size typeInfo + sz\<rparr>)
                                            (ss_types existing)
                                      | None \<Rightarrow>
                                          AList.update tn \<lparr>cs_count = 1, cs_size = sz\<rparr>
                                            (ss_types existing))\<rparr>)
                         (allocationSamples res)
                   | None \<Rightarrow>
                       AList.update sid
                         \<lparr>ss_count = 1, ss_size = sz,
                          ss_types = [(tn, \<lparr>cs_count = 1, cs_size = sz\<rparr>)]\<rparr>
                         (allocationSamples res))
             else allocationSamples res);
          dist =
            (if 0 < sid
             then (let typeStacks = (case map_of (typeStackDistribution res) tn of
                                       None \<Rightarrow> [] | Some m \<Rightarrow> m)
                   in AList.update tn
                        (case map_of typeStacks sid of
                           Some stackData \<Rightarrow>
                             AList.update sid
                               (stackData\<lparr>cs_count := cs_count stackData + 1,
                                           cs_size := cs_size stackData + sz\<rparr>) typeStacks
                         | None \<Rightarrow> AList.update sid \<lparr>cs_count = 1, cs_size = sz\<rparr> typeStacks)
                        (typeStackDistribution res))
             else typeStackDistribution res);
          trace = (case map_of (this_stacks p) sid of
                     None \<Rightarrow> None
                   | Some stack \<Rightarrow> Some (map hexAddress (addresses stack)));
          allocInfo2 = allocInfo1\<lparr>ai_allocations := ai_allocations allocInfo1 @
                         [\<lparr>ae_typeName = tn, ae_size = sz, ae_timestamp = ts,
                           stackTrace = trace\<rparr>]\<rparr>
      in p\<lparr>result := res\<lparr>allocations := AList.update tn allocInfo2 (allocations res),
                             allocationSamples := samples,
                             typeStackDistribution := dist\<rparr>\<rparr>)"

section \<open>Known events\<close>

text \<open>The reads of \<^verbatim>\<open>parseAllocationEvent\<close>: the type name and the size to account.\<close>

definition readAllocationPayload :: "int \<Rightarrow> (jsstring \<times> int) rd" where
  "readAllocationPayload ptrSize =
     bindE readUInt32LE (\<lambda>allocationAmount.
     bindE readUInt32LE (\<lambda>allocationKind.
     bindE readUInt16LE (\<lambda>clrInstanceId.
     bindE getE (\<lambda>reader.
     bindE (if 8 \<le> remaining reader then readUInt64LE else returnE allocationAmount) (\<lambda>allocSize.
     bindE getE (\<lambda>reader.
     bindE (whenE (ptrSize \<le> remaining reader) (skip ptrSize)) (\<lambda>_.
     bindE readNullTerminatedUTF16 (\<lambda>tn.
     returnE (if tn = [] then ascii ''<unknown>'' else tn, allocSize)))))))))"


text \<open>
  \<^verbatim>\<open>parseAllocationEvent\<close>: a payload under 10 bytes returns at once; the \<^verbatim>\<open>catch\<close> around
  the rest only logs in debug mode.
\<close>

definition parseAllocationEvent :: "byte list \<Rightarrow> int \<Rightarrow> int \<Rightarrow> NetTraceParser \<Rightarrow> NetTraceParser" where
  "parseAllocationEvent payload ts sid p =
     (if length payload < 10 then p
      else case readAllocationPayload (this_pointerSize p) (newReader payload) of
        (Inl e, reader) \<Rightarrow> p
      | (Inr (tn, allocSize), reader) \<Rightarrow> addAllocation tn allocSize ts sid p)"

definition readMethodLoadVerbose :: "MethodInfo rd" where
  "readMethodLoadVerbose =
     bindE readUInt64LE (\<lambda>methodId.
     bindE readUInt64LE (\<lambda>moduleId.
     bindE readUInt64LE (\<lambda>methodStartAddress.
     bindE readUInt32LE (\<lambda>methodSize.
     bindE readUInt32LE (\<lambda>methodToken.
     bindE readUInt32LE (\<lambda>methodFlags.
     bindE readNullTerminatedUTF16 (\<lambda>methodNamespace.
     bindE readNullTerminatedUTF16 (\<lambda>methodName.
     bindE readNullTerminatedUTF16 (\<lambda>methodSignature.
     returnE \<lparr>methodId = methodId, moduleId = moduleId,
              methodStartAddress = methodStartAddress, methodSize = methodSize,
              methodToken = methodToken, methodFlags = methodFlags,
              methodNamespace = methodNamespace, methodName = methodName,
              methodSignature = methodSignature\<rparr>)))))))))"

definition parseMethodLoadVerboseEvent :: "byte list \<Rightarrow> NetTraceParser \<Rightarrow> NetTraceParser" where
  "parseMethodLoadVerboseEvent payload p =
     (case readMethodLoadVerbose (newReader payload) of
        (Inl e, reader) \<Rightarrow> p
      | (Inr methodInfo, reader) \<Rightarrow>
          p\<lparr>result := (result p)
               \<lparr>methods := AList.update (methodId methodInfo) methodInfo (methods (result p)),
                methodsByAddress :=
                  AList.update (methodStartAddress methodInfo) methodInfo
                    (methodsByAddress (result p))\<rparr>\<rparr>)"

definition readMethodJittingStarted :: "MethodInfo rd" where
  "readMethodJittingStarted =
     bindE readUInt64LE (\<lambda>methodId.
     bindE readUInt64LE (\<lambda>moduleId.
     bindE readUInt32LE (\<lambda>methodToken.
     bindE readUInt32LE (\<lambda>methodILSize.
     bindE readNullTerminatedUTF16 (\<lambda>methodNamespace.
     bindE readNullTerminatedUTF16 (\<lambda>methodName.
     bindE readNullTerminatedUTF16 (\<lambda>methodSignature.
     returnE \<lparr>methodId = methodId, moduleId = moduleId, methodStartAddress = 0,
              methodSize = 0, methodToken = methodToken, methodFlags = 0,
              methodNamespace = methodNamespace, methodName = methodName,
              methodSignature = methodSignature\<rparr>)))))))"

definition parseMethodJittingStartedEvent :: "byte list \<Rightarrow> NetTraceParser \<Rightarrow> NetTraceParser" where
  "parseMethodJittingStartedEvent payload p =
     (case readMethodJittingStarted (newReader payload) of
        (Inl e, reader) \<Rightarrow> p
      | (Inr methodInfo, reader) \<Rightarrow>
          (if map_of (methods (result p)) (methodId methodInfo) = None
           then p\<lparr>result := (result p)
                  \<lparr>methods := AList.update (methodId methodInfo) methodInfo
                                (methods (result p))\<rparr>\<rparr>
           else p))"

definition processCpuSample :: "int \<Rightarrow> int \<Rightarrow> NetTraceParser \<Rightarrow> NetTraceParser" where
  "processCpuSample sid ts p =
     (if 0 < sid
      then p\<lparr>this_cpuSamples :=
               AList.update sid (orZero (map_of (this_cpuSamples p) sid) + 1)
                 (this_cpuSamples p)\<rparr>
      else p)"

definition processEvent ::
  "int \<Rightarrow> int \<Rightarrow> int \<Rightarrow> int \<Rightarrow> byte list \<Rightarrow> NetTraceParser \<Rightarrow> NetTraceParser" where
  "processEvent mid tid ts sid payload p =
     (let p1 = p\<lparr>dbg_totalEvents := dbg_totalEvents p + 1,
                  dbg_eventCountsByMetadataId :=
                    AList.update mid (orZero (map_of (dbg_eventCountsByMetadataId p) mid) + 1)
                      (dbg_eventCountsByMetadataId p)\<rparr>
      in case map_of (this_metadata p1) mid of
        None \<Rightarrow> p1
      | Some md \<Rightarrow>
          (let p2 =
                 (if providerName md = DOTNET_RUNTIME_PROVIDER
                  then (if eventId md = GC_ALLOCATION_TICK_EVENT_ID
                        then parseAllocationEvent payload ts sid
                               (p1\<lparr>dbg_allocationEvents := dbg_allocationEvents p1 + 1\<rparr>)
                        else if eventId md = METHOD_LOAD_VERBOSE_EVENT_ID
                        then parseMethodLoadVerboseEvent payload p1
                        else if eventId md = METHOD_JITTING_STARTED_EVENT_ID
                        then parseMethodJittingStartedEvent payload p1
                        else p1)
                  else p1);
               p3 =
                 (if providerName md = DOTNET_RUNTIME_RUNDOWN_PROVIDER
                  then (if eventId md = METHOD_DC_END_VERBOSE_EVENT_ID
                        then parseMethodLoadVerboseEvent payload p2
                        else p2)
                  else p2)
           in if providerName md = SAMPLE_PROFILER_PROVIDER
              then processCpuSample sid ts p3
              else p3))"

section \<open>Event blocks\<close>

text \<open>
  The carry of \<^verbatim>\<open>parseEvents\<close> (its \<^verbatim>\<open>prev*\<close> variables; \<^verbatim>\<open>prevSequenceNumber\<close> and
  \<^verbatim>\<open>prevCaptureThreadId\<close> are declared and never used), and the values one pass of the
  compressed branch computes.
\<close>

record PrevState =
  prevMetadataId :: int
  prevThreadId :: int
  prevStackId :: int
  prevTimestamp :: int
  prevPayloadSize :: int

record EventHeader =
  eventFlags :: "byte option"
  eh_metadataId :: int
  eh_threadId :: int
  eh_stackId :: int
  timestampDelta :: int
  eh_timestamp :: int
  eh_payloadSize :: int

text \<open>\<^verbatim>\<open>a % b\<close> on integers: the remainder of the division that truncates.\<close>

definition jsRem :: "int \<Rightarrow> int \<Rightarrow> int" where
  "jsRem a b = sgn a * (\<bar>a\<bar> mod \<bar>b\<bar>)"

text \<open>
  One pass of the compressed branch up to the read of the payload: the header, and the
  payload when \<^verbatim>\<open>payloadSize > 0 && reader.hasBytes(payloadSize)\<close>.
\<close>

definition readCompressedEvent :: "PrevState \<Rightarrow> (EventHeader \<times> byte list option) rd" where
  "readCompressedEvent prev =
     bindE readByte (\<lambda>eventFlags.
     bindE (if flagSet eventFlags 0x01 then readVarUInt else returnE (prevMetadataId prev))
       (\<lambda>metadataId.
     bindE (whenE (flagSet eventFlags 0x02)
              (bindE readVarUInt (\<lambda>sequenceDelta.
               bindE readVarInt64 (\<lambda>captureThreadId.
               bindE readVarUInt (\<lambda>processorNumber. returnE ()))))) (\<lambda>_.
     bindE (if flagSet eventFlags 0x04 then readVarInt64 else returnE (prevThreadId prev))
       (\<lambda>threadId.
     bindE (if flagSet eventFlags 0x08 then readVarUInt else returnE (prevStackId prev))
       (\<lambda>stackId.
     bindE readVarUInt64 (\<lambda>timestampDelta.
     bindE (whenE (flagSet eventFlags 0x10) (skip 16)) (\<lambda>_.
     bindE (whenE (flagSet eventFlags 0x20) (skip 16)) (\<lambda>_.
     bindE (if flagSet eventFlags 0x80 then readVarUInt else returnE (prevPayloadSize prev))
       (\<lambda>payloadSize.
     bindE getE (\<lambda>reader.
     bindE (if 0 < payloadSize \<and> hasBytes reader payloadSize
            then bindE (readBytes payloadSize) (\<lambda>payload. returnE (Some payload))
            else returnE None) (\<lambda>payload.
     returnE (\<lparr>eventFlags = eventFlags, eh_metadataId = metadataId, eh_threadId = threadId,
               eh_stackId = stackId, timestampDelta = timestampDelta,
               eh_timestamp = prevTimestamp prev + timestampDelta,
               eh_payloadSize = payloadSize\<rparr>, payload))))))))))))"

text \<open>
  One pass of the uncompressed branch after its \<^verbatim>\<open>hasBytes(4)\<close> check: \<open>None\<close> is the
  \<^verbatim>\<open>break\<close> on an event size of 0 or past the buffer; otherwise the metadata id, thread id,
  timestamp, stack id and the payload (when it is read), with the cursor past the padding.
  \<^verbatim>\<open>processEvent\<close> does not touch the cursor and the padding cannot throw, so the pass
  hands the event out after the padding.
\<close>

definition readUncompressedEvent ::
  "((int \<times> int \<times> int \<times> int \<times> byte list option) option) rd" where
  "readUncompressedEvent =
     bindE readUInt32LE (\<lambda>eventSize.
     bindE getE (\<lambda>reader.
       if eventSize = 0 \<or> \<not> hasBytes reader eventSize then returnE None
       else
         bindE readUInt32LE (\<lambda>metadataIdWithFlags.
         bindE readUInt32LE (\<lambda>sequenceNumber.
         bindE readUInt64LE (\<lambda>threadId.
         bindE readUInt64LE (\<lambda>captureThreadId.
         bindE readUInt32LE (\<lambda>processorNumber.
         bindE readUInt32LE (\<lambda>stackId.
         bindE readUInt64LE (\<lambda>timestamp.
         bindE (skip 32) (\<lambda>_.
         bindE readUInt32LE (\<lambda>payloadSize.
         bindE getE (\<lambda>reader1.
         bindE (if 0 < payloadSize \<and> hasBytes reader1 payloadSize
                then bindE (readBytes payloadSize) (\<lambda>payload. returnE (Some payload))
                else returnE None) (\<lambda>payload.
         bindE getE (\<lambda>reader2.
         bindE (let consumed = offset reader2 - offset reader;
                    padding = jsRem (4 - jsRem consumed 4) 4
                in whenE (0 < padding) (skip padding)) (\<lambda>_.
         returnE (Some (metadataIdWithFlags AND 0x7FFFFFFF, threadId, timestamp, stackId,
                        payload)))))))))))))))))"

lemma moves_readCompressedEvent: "moves (readCompressedEvent prev)"
  unfolding readCompressedEvent_def
  by (intro moves_bindE keeps_if keeps_bindE keeps_whenE keeps_readBytes) simp_all

lemma moves_readUncompressedEvent: "moves readUncompressedEvent"
  unfolding readUncompressedEvent_def Let_def
  by (intro moves_bindE keeps_if keeps_bindE keeps_whenE keeps_readBytes) simp_all

text \<open>
  The carry at the start of a block, and the carry after an event (the assignments under
  \<^verbatim>\<open>// Update state for next event\<close>).
\<close>

definition zeroPrev :: PrevState where
  "zeroPrev = \<lparr>prevMetadataId = 0, prevThreadId = 0, prevStackId = 0, prevTimestamp = 0,
                prevPayloadSize = 0\<rparr>"

definition nextPrev :: "EventHeader \<Rightarrow> PrevState" where
  "nextPrev ev = \<lparr>prevMetadataId = eh_metadataId ev, prevThreadId = eh_threadId ev,
                   prevStackId = eh_stackId ev, prevTimestamp = eh_timestamp ev,
                   prevPayloadSize = eh_payloadSize ev\<rparr>"

text \<open>
  \<^verbatim>\<open>parseEvents\<close>: \<^verbatim>\<open>while (reader.remaining > 0)\<close> around a \<^verbatim>\<open>try\<close> whose
  \<^verbatim>\<open>catch\<close> leaves the loop.
\<close>

function parseEvents ::
  "bool \<Rightarrow> PrevState \<Rightarrow> NetTraceParser \<Rightarrow> BufferReader \<Rightarrow> NetTraceParser" where
  "parseEvents compressed prev p reader =
     (if 0 < remaining reader
      then if compressed
        then case readCompressedEvent prev reader of
          (Inl e, reader') \<Rightarrow> p
        | (Inr (ev, payload), reader') \<Rightarrow>
            parseEvents compressed (nextPrev ev)
              (case payload of
                 None \<Rightarrow> p
               | Some pl \<Rightarrow>
                   processEvent (eh_metadataId ev) (eh_threadId ev) (eh_timestamp ev)
                     (eh_stackId ev) pl p)
              reader'
        else if \<not> hasBytes reader 4 then p
        else case readUncompressedEvent reader of
          (Inl e, reader') \<Rightarrow> p
        | (Inr None, reader') \<Rightarrow> p
        | (Inr (Some (mid, tid, ts, sid, payload)), reader') \<Rightarrow>
            parseEvents compressed prev
              (case payload of
                 None \<Rightarrow> p
               | Some pl \<Rightarrow> processEvent mid tid ts sid pl p)
              reader'
      else p)"
  by pat_completeness auto
termination
proof (relation "measure (\<lambda>(c, prev, p, r). nat (remaining r))", goal_cases)
  case 1
  show ?case by simp
next
  case (2 compressed prev p reader x reader' y ev payload)
  then have ib: "inBuffer reader"
    and eq: "readCompressedEvent prev reader = (Inr (ev, payload), reader')"
    by (simp_all add: remaining_def inBuffer_def)
  from movesD[OF moves_readCompressedEvent ib eq] 2(1) show ?case
    by (simp add: remaining_def)
next
  case (3 compressed prev p reader x reader' y z mid w tid v ts u sid payload)
  then have ib: "inBuffer reader"
    and eq: "readUncompressedEvent reader = (Inr (Some (mid, tid, ts, sid, payload)), reader')"
    by (simp_all add: remaining_def inBuffer_def)
  from movesD[OF moves_readUncompressedEvent ib eq] 3(1) show ?case
    by (simp add: remaining_def)
qed

declare parseEvents.simps [simp del]

definition parseEventBlock :: "byte list \<Rightarrow> NetTraceParser \<Rightarrow> error + NetTraceParser" where
  "parseEventBlock data p =
     (case bindE readInt16LE (\<lambda>headerSize.
           bindE readInt16LE (\<lambda>flags.
           bindE readInt64LE (\<lambda>minTimestamp.
           bindE readInt64LE (\<lambda>maxTimestamp.
           bindE (whenE (20 < headerSize) (skip (headerSize - 20))) (\<lambda>_.
           returnE (flags AND 1 \<noteq> 0)))))) (newReader data) of
        (Inl e, reader) \<Rightarrow> Inl e
      | (Inr compressed, reader) \<Rightarrow>
          Inr (parseEvents compressed zeroPrev p reader))"

section \<open>Method profiles\<close>

text \<open>An entry of the sorted \<^verbatim>\<open>methodAddresses\<close> array.\<close>

record MethodRange =
  address :: int
  endAddress :: int
  mr_method :: MethodInfo

text \<open>
  \<^verbatim>\<open>Array.prototype.sort\<close> is stable, and so is \<^const>\<open>sort_key\<close>: entries with the same
  start address keep the order of \<^verbatim>\<open>result.methods\<close>.
\<close>

definition methodAddresses :: "(int \<times> MethodInfo) list \<Rightarrow> MethodRange list" where
  "methodAddresses ms =
     sort_key address
       (map (\<lambda>m. \<lparr>address = methodStartAddress m,
                   endAddress = methodStartAddress m + methodSize m, mr_method = m\<rparr>)
          (filter (\<lambda>m. 0 < methodStartAddress m) (map snd ms)))"

text \<open>
  The binary search of \<^verbatim>\<open>findMethodByAddress\<close>. It starts at \<open>0\<close> and \<open>length - 1\<close> and
  never leaves that range; the model returns \<open>None\<close> for an index outside it.
\<close>

function findMethodLoop :: "MethodRange list \<Rightarrow> int \<Rightarrow> int \<Rightarrow> int \<Rightarrow> MethodInfo option" where
  "findMethodLoop ms addr left right =
     (if left \<le> right
      then (let mid = (left + right) div 2 in
            if mid < 0 \<or> int (length ms) \<le> mid then None
            else (let entry = ms ! nat mid in
                  if address entry \<le> addr \<and> addr < endAddress entry then Some (mr_method entry)
                  else if addr < address entry then findMethodLoop ms addr left (mid - 1)
                  else findMethodLoop ms addr (mid + 1) right))
      else None)"
  by pat_completeness auto
termination
  by (relation "measure (\<lambda>(ms, addr, left, right). nat (right - left + 1))") auto

declare findMethodLoop.simps [simp del]

definition findMethodByAddress :: "MethodRange list \<Rightarrow> int \<Rightarrow> MethodInfo option" where
  "findMethodByAddress ms addr = findMethodLoop ms addr 0 (int (length ms) - 1)"

definition getMethodFullName :: "MethodInfo \<Rightarrow> jsstring" where
  "getMethodFullName m =
     (if methodNamespace m \<noteq> [] then methodNamespace m @ ascii ''.'' @ methodName m
      else if methodName m \<noteq> [] then methodName m
      else ascii ''Method_0x'' @ toString16 (methodStartAddress m))"

text \<open>
  The name \<^verbatim>\<open>computeMethodProfiles\<close> credits for an address: the two branches of its
  \<^verbatim>\<open>if (method)\<close> differ in the name only.
\<close>

definition profileName :: "MethodRange list \<Rightarrow> int \<Rightarrow> jsstring" where
  "profileName ms addr =
     (case findMethodByAddress ms addr of
        Some m \<Rightarrow> getMethodFullName m
      | None \<Rightarrow> ascii ''<unknown> 0x'' @ toString16 addr)"

text \<open>
  The tables \<^verbatim>\<open>computeMethodProfiles\<close> fills: \<^verbatim>\<open>inclusiveCounts\<close>, \<^verbatim>\<open>exclusiveCounts\<close>
  and, per stack, \<^verbatim>\<open>seenMethods\<close>.
\<close>

record Credits =
  inclusiveCounts :: "(jsstring \<times> nat) list"
  exclusiveCounts :: "(jsstring \<times> nat) list"

text \<open>The loop over the addresses of one stack, \<open>i\<close> being the index of the next one.\<close>

fun creditStack :: "MethodRange list \<Rightarrow> nat \<Rightarrow> nat \<Rightarrow> int list \<Rightarrow> jsstring list \<Rightarrow> Credits \<Rightarrow> Credits" where
  "creditStack ms sampleCount i [] seenMethods c = c"
| "creditStack ms sampleCount i (addr # rest) seenMethods c =
     (let fullName = profileName ms addr;
          c1 = (if i = 0
                then c\<lparr>exclusiveCounts :=
                        AList.update fullName
                          (orZero (map_of (exclusiveCounts c) fullName) + sampleCount)
                          (exclusiveCounts c)\<rparr>
                else c)
      in if fullName \<notin> set seenMethods
         then creditStack ms sampleCount (i + 1) rest (setAdd fullName seenMethods)
                (c1\<lparr>inclusiveCounts :=
                      AList.update fullName
                        (orZero (map_of (inclusiveCounts c1) fullName) + sampleCount)
                        (inclusiveCounts c1)\<rparr>)
         else creditStack ms sampleCount (i + 1) rest seenMethods c1)"

text \<open>The loop over \<^verbatim>\<open>this.cpuSamples\<close>.\<close>

fun creditSamples :: "MethodRange list \<Rightarrow> (int \<times> StackInfo) list \<Rightarrow> (int \<times> nat) list \<Rightarrow> Credits \<Rightarrow> Credits" where
  "creditSamples ms stks [] c = c"
| "creditSamples ms stks ((sid, sampleCount) # rest) c =
     (case map_of stks sid of
        None \<Rightarrow> creditSamples ms stks rest c
      | Some stack \<Rightarrow>
          (if addresses stack = [] then creditSamples ms stks rest c
           else creditSamples ms stks rest (creditStack ms sampleCount 0 (addresses stack) [] c)))"

text \<open>
  \<^verbatim>\<open>computeMethodProfiles\<close>, on the parser (for \<^verbatim>\<open>this.cpuSamples\<close> and \<^verbatim>\<open>this.stacks\<close>) and
  the result (for \<^verbatim>\<open>result.methods\<close> and \<^verbatim>\<open>result.methodProfiles\<close>). The sampling interval
  is the constant 1.
\<close>

definition computeMethodProfiles :: "NetTraceParser \<Rightarrow> ParseResult \<Rightarrow> ParseResult" where
  "computeMethodProfiles p res =
     (let c = creditSamples (methodAddresses (methods res)) (this_stacks p) (this_cpuSamples p)
                \<lparr>inclusiveCounts = [], exclusiveCounts = []\<rparr>;
          allMethods = foldl (\<lambda>s n. setAdd n s) []
                         (map fst (inclusiveCounts c) @ map fst (exclusiveCounts c))
      in res\<lparr>methodProfiles :=
               foldl (\<lambda>profiles methodName.
                        (let inclusiveCount = orZero (map_of (inclusiveCounts c) methodName);
                             exclusiveCount = orZero (map_of (exclusiveCounts c) methodName)
                         in AList.update methodName
                              \<lparr>mp_methodName = methodName, inclusiveCount = inclusiveCount,
                               exclusiveCount = exclusiveCount,
                               inclusiveTimeMs = inclusiveCount * 1,
                               exclusiveTimeMs = exclusiveCount * 1\<rparr> profiles))
                 (methodProfiles res) allMethods\<rparr>)"

section \<open>The container driver\<close>

definition liftR :: "'a rd \<Rightarrow> ('a, NetTraceParser) exn" where
  "liftR m p = (case m (this_reader p) of (x, r') \<Rightarrow> (x, p\<lparr>this_reader := r'\<rparr>))"

definition modifyE :: "('s \<Rightarrow> 's) \<Rightarrow> (unit, 's) exn" where
  "modifyE f s = (Inr (), f s)"

text \<open>\<^verbatim>\<open>try { m } catch (err) { h(err) }\<close>.\<close>

definition catchE :: "('a, 's) exn \<Rightarrow> (error \<Rightarrow> ('a, 's) exn) \<Rightarrow> ('a, 's) exn" where
  "catchE m h s = (case m s of (Inl e, s') \<Rightarrow> h e s' | (Inr v, s') \<Rightarrow> (Inr v, s'))"

definition pushError :: "errorEntry \<Rightarrow> NetTraceParser \<Rightarrow> NetTraceParser" where
  "pushError x p = p\<lparr>this_errors := this_errors p @ [x]\<rparr>"

text \<open>
  \<^verbatim>\<open>parseTraceBlob\<close> stores the pointer size and the process id as it reads them, so a
  throw after them keeps them.
\<close>

definition parseTraceBlob :: "byte list \<Rightarrow> (TraceInfo, NetTraceParser) exn" where
  "parseTraceBlob data p =
     (case bindE readInt16LE (\<lambda>year.
           bindE readInt16LE (\<lambda>month.
           bindE readInt16LE (\<lambda>dayOfWeek.
           bindE readInt16LE (\<lambda>day.
           bindE readInt16LE (\<lambda>hour.
           bindE readInt16LE (\<lambda>minute.
           bindE readInt16LE (\<lambda>second.
           bindE readInt16LE (\<lambda>millisecond.
           bindE readInt64LE (\<lambda>ticks.
           bindE readInt64LE (\<lambda>frequency.
           bindE readInt32LE (\<lambda>ptrSize.
           returnE ((year, month - 1, day, hour, minute, second, millisecond),
                    ticks, frequency, ptrSize)))))))))))) (newReader data) of
        (Inl e, r1) \<Rightarrow> (Inl e, p)
      | (Inr (utc, ticks, frequency, ptrSize), r1) \<Rightarrow>
          (let p1 = p\<lparr>this_pointerSize := ptrSize\<rparr> in
           case readInt32LE r1 of
             (Inl e, r2) \<Rightarrow> (Inl e, p1)
           | (Inr pid, r2) \<Rightarrow>
               (let p2 = p1\<lparr>this_processId := pid\<rparr> in
                case bindE readInt32LE (\<lambda>nproc.
                     bindE readInt32LE (\<lambda>rate. returnE (nproc, rate))) r2 of
                  (Inl e, r3) \<Rightarrow> (Inl e, p2)
                | (Inr (nproc, rate), r3) \<Rightarrow>
                    (Inr \<lparr>syncTimeUTC = utc, syncTimeTicks = ticks,
                          tickFrequency = frequency, pointerSize = this_pointerSize p2,
                          processId = this_processId p2, numberOfProcessors = nproc,
                          cpuSamplingRate = rate\<rparr>, p2))))"

text \<open>
  \<^verbatim>\<open>processBlock\<close>: the \<^verbatim>\<open>switch\<close> on the type name inside a \<^verbatim>\<open>try\<close> whose
  \<^verbatim>\<open>catch\<close> appends \<^verbatim>\<open>Error processing <type>: <message>\<close> to \<^verbatim>\<open>this.errors\<close>.
\<close>

definition processBlock :: "TypeInfo \<Rightarrow> byte list \<Rightarrow> NetTraceParser \<Rightarrow> NetTraceParser" where
  "processBlock typeInfo data p =
     (let tn = tp_typeName typeInfo in
      if tn = ascii ''Trace''
      then (case parseTraceBlob data p of
              (Inl e, p') \<Rightarrow> pushError (ErrorProcessing tn e) p'
            | (Inr info, p') \<Rightarrow> p'\<lparr>result := (result p')\<lparr>traceInfo := Some info\<rparr>\<rparr>)
      else if tn = ascii ''MetadataBlock''
      then (let p1 = p\<lparr>dbg_metadataBlocks := dbg_metadataBlocks p + 1\<rparr> in
            case parseMetadataBlock data p1 of
              Inl e \<Rightarrow> pushError (ErrorProcessing tn e) p1
            | Inr p2 \<Rightarrow> p2)
      else if tn = ascii ''EventBlock''
      then (let p1 = p\<lparr>dbg_eventBlocks := dbg_eventBlocks p + 1\<rparr> in
            case parseEventBlock data p1 of
              Inl e \<Rightarrow> pushError (ErrorProcessing tn e) p1
            | Inr p2 \<Rightarrow> p2)
      else if tn = ascii ''StackBlock'' then parseStackBlock data p
      else p)"

lemma keeps_Let [intro!]: "(\<And>x. keeps (f x)) \<Longrightarrow> keeps (Let v f)"
  by (simp add: Let_def)

text \<open>
  \<^verbatim>\<open>skipToNextObject\<close>: drops bytes up to and including the next \<^verbatim>\<open>EndObject\<close>, or up to
  the next \<^verbatim>\<open>BeginPrivateObject\<close>.
\<close>

function skipToNextObject :: "unit rd" where
  "skipToNextObject r =
     (if 0 < remaining r
      then case peekByte r of
        (Inl e, r1) \<Rightarrow> (Inl e, r1)
      | (Inr b, r1) \<Rightarrow>
          (if b = Some EndObject then bindE readByte (\<lambda>_. returnE ()) r1
           else if b = Some BeginPrivateObject then (Inr (), r1)
           else case readByte r1 of
             (Inl e, r2) \<Rightarrow> (Inl e, r2)
           | (Inr _, r2) \<Rightarrow> skipToNextObject r2)
      else (Inr (), r))"
  by pat_completeness auto
termination
  by (relation "measure (\<lambda>r. nat (remaining r))")
    (auto simp: peekByte_def readByte_def hasBytes_def advance_def remaining_def
      split: if_splits)

declare skipToNextObject.simps [simp del]

text \<open>The body of the \<^verbatim>\<open>Blob\<close> case of \<^verbatim>\<open>skipToEndObject\<close>.\<close>

definition skipBlobInner :: "unit rd" where
  "skipBlobInner =
     bindE getE (\<lambda>reader.
       whenE (4 \<le> remaining reader)
         (bindE readInt32LE (\<lambda>sz.
          bindE getE (\<lambda>reader1.
            whenE (0 < sz \<and> sz < remaining reader1) (skip sz)))))"

lemma keeps_skipBlobInner: "keeps skipBlobInner"
  unfolding skipBlobInner_def by (intro keeps_bindE keeps_whenE) simp_all

function skipToEndObjectLoop :: "int \<Rightarrow> unit rd" where
  "skipToEndObjectLoop depth r =
     (if 0 < remaining r \<and> 0 < depth
      then case readByte r of
        (Inl e, r1) \<Rightarrow> (Inl e, r1)
      | (Inr tag, r1) \<Rightarrow>
          (if tag = Some EndObject then skipToEndObjectLoop (depth - 1) r1
           else if tag = Some BeginPrivateObject \<or> tag = Some BeginObject
           then skipToEndObjectLoop (depth + 1) r1
           else if tag = Some Blob
           then case skipBlobInner r1 of
             (Inl e, r2) \<Rightarrow> (Inl e, r2)
           | (Inr _, r2) \<Rightarrow> skipToEndObjectLoop depth r2
           else skipToEndObjectLoop depth r1)
      else (Inr (), r))"
  by pat_completeness auto
termination
proof (relation "measure (\<lambda>(depth, r). nat (remaining r))", goal_cases)
  case 1
  show ?case by simp
next
  case (2 depth r x r1 tag)
  then show ?case
    by (auto simp: readByte_def hasBytes_def advance_def remaining_def split: if_splits)
next
  case (3 depth r x r1 tag)
  then show ?case
    by (auto simp: readByte_def hasBytes_def advance_def remaining_def split: if_splits)
next
  case (4 depth r x r1 tag y r2 z)
  then have rb: "readByte r = (Inr tag, r1)" and sb: "skipBlobInner r1 = (Inr z, r2)"
    by simp_all
  from rb 4(1) have 1: "inBuffer r1" "offset r < offset r1" "buffer r1 = buffer r"
    by (auto simp: readByte_def hasBytes_def advance_def remaining_def inBuffer_def
        split: if_splits)
  from keepsD[OF keeps_skipBlobInner 1(1) sb] 1 4(1) show ?case
    by (simp add: remaining_def)
next
  case (5 depth r x r1 tag)
  then show ?case
    by (auto simp: readByte_def hasBytes_def advance_def remaining_def split: if_splits)
qed

declare skipToEndObjectLoop.simps [simp del]

definition skipToEndObject :: "unit rd" where
  "skipToEndObject = skipToEndObjectLoop 1"

text \<open>
  \<^verbatim>\<open>parseObjectPayload\<close>. \<open>startOffset\<close> is the offset on entry, which the branch for an
  implausible block size restores.
\<close>

definition isBlockType :: "jsstring \<Rightarrow> bool" where
  "isBlockType tn \<longleftrightarrow> tn = ascii ''MetadataBlock'' \<or> tn = ascii ''EventBlock'' \<or>
     tn = ascii ''StackBlock'' \<or> tn = ascii ''SPBlock''"

definition parseObjectPayload :: "TypeInfo \<Rightarrow> (unit, NetTraceParser) exn" where
  "parseObjectPayload typeInfo =
     bindE getE (\<lambda>p0.
     let tn = tp_typeName typeInfo; startOffset = offset (this_reader p0) in
     catchE
       (if tn = ascii ''Trace''
        then bindE (if hasBytes (this_reader p0) 48
                    then bindE (liftR (readBytes 48)) (\<lambda>data.
                         bindE (parseTraceBlob data) (\<lambda>info.
                         modifyE (\<lambda>p. p\<lparr>result := (result p)\<lparr>traceInfo := Some info\<rparr>\<rparr>)))
                    else returnE ()) (\<lambda>_.
             liftR skipToNextObject)
        else if isBlockType tn
        then (if \<not> hasBytes (this_reader p0) 4 then returnE ()
              else bindE (liftR readInt32LE) (\<lambda>blockSize.
                   if blockSize \<le> 0 \<or> 100000000 < blockSize
                   then bindE (modifyE (\<lambda>p. p\<lparr>this_reader :=
                                 (this_reader p)\<lparr>offset := startOffset\<rparr>\<rparr>)) (\<lambda>_.
                        liftR skipToNextObject)
                   else bindE getE (\<lambda>p1.
                        let currentPos = offset (this_reader p1);
                            alignPad = (4 - (currentPos AND 3)) AND 3 in
                        bindE (liftR (skip alignPad)) (\<lambda>_.
                        bindE getE (\<lambda>p2.
                        if \<not> hasBytes (this_reader p2) blockSize then liftR skipToNextObject
                        else bindE (liftR (readBytes blockSize)) (\<lambda>blockData.
                             bindE (modifyE (processBlock typeInfo blockData)) (\<lambda>_.
                             liftR skipToNextObject)))))))
        else liftR skipToNextObject)
       (\<lambda>err. bindE (modifyE (pushError (ErrorParsing tn err))) (\<lambda>_.
              liftR skipToNextObject)))"

text \<open>
  The fields of a type definition, read in both forms of \<^verbatim>\<open>parseBeginPrivateObject\<close>, and
  the registration of the type under the next index.
\<close>

definition readTypeDefinition :: "(TypeInfo, NetTraceParser) exn" where
  "readTypeDefinition =
     bindE (liftR readInt32LE) (\<lambda>version.
     bindE (liftR readInt32LE) (\<lambda>minReaderVersion.
     bindE (liftR readInt32LE) (\<lambda>typeNameLength.
     bindE (liftR (readAsciiString typeNameLength)) (\<lambda>typeName.
     bindE getE (\<lambda>p.
     let typeInfo = \<lparr>typeIndex = this_nextTypeIndex p, tp_version = version,
                      minReaderVersion = minReaderVersion, tp_typeName = typeName\<rparr> in
     bindE (modifyE (\<lambda>p. p\<lparr>this_nextTypeIndex := this_nextTypeIndex p + 1,
                             this_typeRegistry :=
                               AList.update (int (typeIndex typeInfo)) typeInfo
                                 (this_typeRegistry p)\<rparr>)) (\<lambda>_.
     returnE typeInfo))))))"

definition parseBeginPrivateObject :: "(unit, NetTraceParser) exn" where
  "parseBeginPrivateObject =
     bindE (liftR peekByte) (\<lambda>nextByte.
     if nextByte = Some BeginPrivateObject
     then bindE (liftR readByte) (\<lambda>_.
          bindE (liftR peekByte) (\<lambda>typeRefByte.
          bindE (if typeRefByte = Some NullReference
                 then bindE (liftR readByte) (\<lambda>_.
                      bindE readTypeDefinition (\<lambda>typeInfo. returnE (Some typeInfo)))
                 else bindE (liftR readVarUInt) (\<lambda>typeIndex.
                      bindE getE (\<lambda>p.
                      case map_of (this_typeRegistry p) typeIndex of
                        Some typeInfo \<Rightarrow> returnE (Some typeInfo)
                      | None \<Rightarrow>
                          bindE (modifyE (pushError (UnknownTypeIndex typeIndex))) (\<lambda>_.
                          bindE (liftR skipToEndObject) (\<lambda>_. returnE None)))))
            (\<lambda>found.
          case found of
            None \<Rightarrow> returnE ()
          | Some typeInfo \<Rightarrow>
              bindE getE (\<lambda>p.
              bindE (if hasBytes (this_reader p) 1
                     then bindE (liftR peekByte) (\<lambda>b.
                          whenE (b = Some EndObject)
                            (bindE (liftR readByte) (\<lambda>_. returnE ())))
                     else returnE ()) (\<lambda>_.
              parseObjectPayload typeInfo)))))
     else if nextByte = Some NullReference
     then bindE (liftR readByte) (\<lambda>_.
          bindE readTypeDefinition (\<lambda>typeInfo.
          parseObjectPayload typeInfo))
     else bindE (liftR readVarUInt) (\<lambda>typeIndex.
          bindE getE (\<lambda>p.
          case map_of (this_typeRegistry p) typeIndex of
            Some typeInfo \<Rightarrow> parseObjectPayload typeInfo
          | None \<Rightarrow> modifyE (pushError (UnknownTypeIndex typeIndex)))))"

text \<open>The \<^verbatim>\<open>try\<close> block of the loop of \<^verbatim>\<open>parseObjectStream\<close>.\<close>

definition parseObject :: "(unit, NetTraceParser) exn" where
  "parseObject =
     bindE (liftR readByte) (\<lambda>tag.
     if tag = Some NullReference then returnE ()
     else if tag = Some EndObject then returnE ()
     else if tag = Some BeginPrivateObject then parseBeginPrivateObject
     else if tag = Some Blob
     then bindE getE (\<lambda>p.
          if hasBytes (this_reader p) 4
          then bindE (liftR readInt32LE) (\<lambda>sz.
               bindE getE (\<lambda>p1.
               whenE (0 < sz \<and> sz \<le> remaining (this_reader p1)) (liftR (skip sz))))
          else returnE ())
     else returnE ())"

definition maxObjects :: nat where
  "maxObjects = 10000000"

text \<open>
  \<^verbatim>\<open>parseObjectStream\<close>: \<^verbatim>\<open>while (this.reader.remaining > 0 && objectCount < maxObjects)\<close>;
  the \<^verbatim>\<open>catch\<close> leaves the loop when fewer than 10 bytes remain and goes on otherwise.
\<close>

function parseObjectStreamLoop :: "nat \<Rightarrow> NetTraceParser \<Rightarrow> NetTraceParser" where
  "parseObjectStreamLoop objectCount p =
     (if 0 < remaining (this_reader p) \<and> objectCount < maxObjects
      then case parseObject p of
        (Inl e, p') \<Rightarrow>
          (if remaining (this_reader p') < 10 then p'
           else parseObjectStreamLoop (objectCount + 1) p')
      | (Inr u, p') \<Rightarrow> parseObjectStreamLoop (objectCount + 1) p'
      else p)"
  by pat_completeness auto
termination
  by (relation "measure (\<lambda>(objectCount, p). maxObjects - objectCount)") auto

declare parseObjectStreamLoop.simps [simp del]

definition parseObjectStream :: "NetTraceParser \<Rightarrow> NetTraceParser" where
  "parseObjectStream = parseObjectStreamLoop 0"

section \<open>The entry point\<close>

definition emptyResult :: ParseResult where
  "emptyResult =
     \<lparr>traceInfo = None, metadata = [], allocations = [], events = [], stacks = [],
      methods = [], methodsByAddress = [], methodProfiles = [], allocationSamples = [],
      typeStackDistribution = [], errors = [],
      debugInfo = \<lparr>totalEvents = 0, allocationEvents = 0, providers = [], eventCounts = [],
                   samplingIntervalMs = 1\<rparr>\<rparr>"

text \<open>The parser as its constructor and field initialisers leave it.\<close>

definition newParser :: "byte list \<Rightarrow> NetTraceParser" where
  "newParser b =
     \<lparr>this_reader = newReader b, this_metadata = [], this_stacks = [], this_pointerSize = 8,
      this_processId = 0, this_errors = [], this_typeRegistry = [], this_nextTypeIndex = 0,
      dbg_totalEvents = 0, dbg_allocationEvents = 0, dbg_providers = [],
      dbg_metadataBlocks = 0, dbg_eventBlocks = 0, dbg_eventCountsByMetadataId = [],
      this_cpuSamples = [], result = emptyResult\<rparr>"

definition magic :: "byte list" where
  "magic = map of_char ''Nettrace''"

definition banner :: jsstring where
  "banner = ascii ''!FastSerialization.1''"

definition startsWith :: "jsstring \<Rightarrow> jsstring \<Rightarrow> bool" where
  "startsWith s pre \<longleftrightarrow> take (length pre) s = pre"

text \<open>
  The serialization header: \<^verbatim>\<open>readInt32LE\<close> then \<^verbatim>\<open>readAsciiString\<close>, from offset 8.
\<close>

definition readHeaderString :: "jsstring rd" where
  "readHeaderString = bindE readInt32LE (\<lambda>headerLength. readAsciiString headerLength)"

text \<open>
  The loop of \<^verbatim>\<open>parse\<close> that rolls the per-metadata-id counts up by
  \<^verbatim>\<open>provider:eventId\<close>. The key is kept as the pair of its two parts.
\<close>

fun decimal :: "nat \<Rightarrow> string" where
  "decimal n = (if n < 10 then [hexDigit n] else decimal (n div 10) @ [hexDigit (n mod 10)])"

declare decimal.simps [simp del]

definition numberToString :: "int \<Rightarrow> jsstring" where
  "numberToString x = ascii (if x < 0 then ''-'' @ decimal (nat (- x)) else decimal (nat x))"

definition rollUpEventCounts ::
  "(int \<times> EventMetadata) list \<Rightarrow> (int \<times> nat) list \<Rightarrow> (jsstring \<times> nat) list" where
  "rollUpEventCounts mds counts =
     foldl (\<lambda>eventCounts (mid, cnt).
              case map_of mds mid of
                None \<Rightarrow> eventCounts
              | Some md \<Rightarrow>
                  (let key = providerName md @ ascii '':'' @ numberToString (eventId md)
                   in AList.update key (orZero (map_of eventCounts key) + cnt) eventCounts))
       [] counts"

text \<open>
  \<^verbatim>\<open>parse\<close>. Everything up to the header check throws into the outer \<^verbatim>\<open>catch\<close>, which
  appends \<^verbatim>\<open>Parse error: <message>\<close> to the errors of the result as it is then: the initial
  one, since nothing has been stored in it yet. Nothing after the header check throws.
\<close>

definition parse :: "byte list \<Rightarrow> ParseResult" where
  "parse b =
     (if length b < 32 then emptyResult\<lparr>errors := [ParseError FileTooSmall]\<rparr>
      else if take 8 b \<noteq> magic then emptyResult\<lparr>errors := [ParseError MissingMagic]\<rparr>
      else case readHeaderString \<lparr>buffer = b, offset = 8\<rparr> of
        (Inl e, reader) \<Rightarrow> emptyResult\<lparr>errors := [ParseError e]\<rparr>
      | (Inr headerString, reader) \<Rightarrow>
          (if \<not> startsWith headerString banner
           then emptyResult\<lparr>errors := [ParseError (InvalidSerializationHeader headerString)]\<rparr>
           else (let p = parseObjectStream ((newParser b)\<lparr>this_reader := reader\<rparr>);
                     res = (result p)\<lparr>metadata := this_metadata p, stacks := this_stacks p,
                                       errors := this_errors p\<rparr>;
                     res1 = computeMethodProfiles p res
                 in res1\<lparr>debugInfo :=
                          \<lparr>totalEvents = dbg_totalEvents p,
                           allocationEvents = dbg_allocationEvents p,
                           providers = dbg_providers p,
                           eventCounts = rollUpEventCounts (this_metadata p)
                                           (dbg_eventCountsByMetadataId p),
                           samplingIntervalMs = 1\<rparr>\<rparr>)))"

section \<open>The flame-graph builder (buildFlameGraphData of the editor provider)\<close>

text \<open>
  A node of the tree the builder grows: its name, its weight (\<^verbatim>\<open>samples\<close>), the bytes and
  the per-type breakdown it accumulates, and its children by name, in insertion order.
\<close>

datatype FlameNode =
  FlameNode (fn_name: jsstring) (samples: nat) (fn_size: int)
    (fn_types: "(jsstring \<times> CountSize) list") (children: "(jsstring \<times> FlameNode) list")

datatype flameMode = Cpu | Allocation

text \<open>An entry of \<^verbatim>\<open>sampleData\<close>; only the allocation mode sets \<^verbatim>\<open>types\<close>.\<close>

record SampleData =
  sd_count :: nat
  sd_size :: int
  sd_types :: "(jsstring \<times> CountSize) list option"

text \<open>
  \<^verbatim>\<open>getMethodName\<close>: the builder sorts the methods and searches them as
  \<^verbatim>\<open>computeMethodProfiles\<close> does, with the full name in place of the method, and names an
  address outside every interval by its hexadecimal form.
\<close>

definition getMethodName :: "MethodRange list \<Rightarrow> int \<Rightarrow> jsstring" where
  "getMethodName ms addr =
     (case findMethodByAddress ms addr of
        Some m \<Rightarrow> getMethodFullName m
      | None \<Rightarrow> hexAddress addr)"

definition flameSampleData :: "ParseResult \<Rightarrow> flameMode \<Rightarrow> (int \<times> SampleData) list" where
  "flameSampleData res mode =
     (case mode of
        Cpu \<Rightarrow>
          foldl (\<lambda>sampleData stack.
                   if addresses stack \<noteq> []
                   then AList.update (stackId stack)
                          \<lparr>sd_count = 1, sd_size = 0, sd_types = None\<rparr> sampleData
                   else sampleData)
            [] (map snd (stacks res))
      | Allocation \<Rightarrow>
          foldl (\<lambda>sampleData (sid, d).
                   AList.update sid
                     \<lparr>sd_count = ss_count d, sd_size = ss_size d, sd_types = Some (ss_types d)\<rparr>
                     sampleData)
            [] (allocationSamples res))"

text \<open>The merge of the types of a sample into those of a node.\<close>

definition mergeTypes ::
  "(jsstring \<times> CountSize) list \<Rightarrow> (jsstring \<times> CountSize) list \<Rightarrow> (jsstring \<times> CountSize) list" where
  "mergeTypes nodeTypes dataTypes =
     foldl (\<lambda>acc (tn, typeData).
              case map_of acc tn of
                Some existing \<Rightarrow>
                  AList.update tn
                    (existing\<lparr>cs_count := cs_count existing + cs_count typeData,
                              cs_size := cs_size existing + cs_size typeData\<rparr>) acc
              | None \<Rightarrow>
                  AList.update tn
                    \<lparr>cs_count = cs_count typeData, cs_size = cs_size typeData\<rparr> acc)
       nodeTypes dataTypes"

text \<open>What the builder adds to a node it passes through.\<close>

fun addSample :: "SampleData \<Rightarrow> FlameNode \<Rightarrow> FlameNode" where
  "addSample d (FlameNode n s z t ch) =
     FlameNode n (s + sd_count d) (z + sd_size d)
       (case sd_types d of None \<Rightarrow> t | Some dataTypes \<Rightarrow> mergeTypes t dataTypes) ch"

text \<open>
  The walk from a node down the names of a path: each name finds or creates the child, credits it,
  and goes on from it.
\<close>

fun insertPath :: "SampleData \<Rightarrow> jsstring list \<Rightarrow> FlameNode \<Rightarrow> FlameNode" where
  "insertPath d [] node = node"
| "insertPath d (nm # rest) node =
     (let child = (case map_of (children node) nm of
                     None \<Rightarrow> FlameNode nm 0 0 [] []
                   | Some c \<Rightarrow> c)
      in FlameNode (fn_name node) (samples node) (fn_size node) (fn_types node)
           (AList.update nm (insertPath d rest (addSample d child)) (children node)))"

text \<open>
  The loop over \<^verbatim>\<open>sampleData\<close>: an entry whose stack is missing or empty is passed over; any
  other credits the root and then its path, deepest caller first.
\<close>

definition addStackToTree ::
  "ParseResult \<Rightarrow> MethodRange list \<Rightarrow> FlameNode \<Rightarrow> int \<times> SampleData \<Rightarrow> FlameNode" where
  "addStackToTree res ms root entry =
     (case map_of (stacks res) (fst entry) of
        None \<Rightarrow> root
      | Some stack \<Rightarrow>
          (if addresses stack = [] then root
           else insertPath (snd entry) (map (getMethodName ms) (rev (addresses stack)))
                  (addSample (snd entry) root)))"

text \<open>
  The tree \<^verbatim>\<open>buildFlameGraphData\<close> builds, \<open>None\<close> where it returns the empty array before
  building one. The flattening that follows assigns positions in floating point and is not
  part of the model.
\<close>

definition buildFlameTree :: "ParseResult \<Rightarrow> flameMode \<Rightarrow> FlameNode option" where
  "buildFlameTree res mode =
     (if stacks res = [] then None
      else if mode = Cpu \<and> methodProfiles res = [] then None
      else if mode = Allocation \<and> allocationSamples res = [] then None
      else Some (foldl (addStackToTree res (methodAddresses (methods res)))
                   (FlameNode (ascii ''root'') 0 0 [] [])
                   (flameSampleData res mode)))"

text \<open>Every node of a tree, the root first.\<close>

fun flameNodes :: "FlameNode \<Rightarrow> FlameNode list" where
  "flameNodes (FlameNode n s z t ch) = FlameNode n s z t ch # concat (map (\<lambda>(k, c). flameNodes c) ch)"

definition childrenWeight :: "FlameNode \<Rightarrow> nat" where
  "childrenWeight node = sum_list (map (\<lambda>(k, c). samples c) (children node))"

section \<open>Compressed event headers\<close>

lemma readCompressedEvent_inversion:
  assumes "readCompressedEvent prev r = (Inr (ev, payload), r')"
  shows "\<exists>r1. readByte r = (Inr (eventFlags ev), r1) \<and>
     (\<exists>r2. (if flagSet (eventFlags ev) 0x01 then readVarUInt else returnE (prevMetadataId prev)) r1
              = (Inr (eh_metadataId ev), r2) \<and>
     (\<exists>r3. whenE (flagSet (eventFlags ev) 0x02)
              (bindE readVarUInt (\<lambda>sequenceDelta.
               bindE readVarInt64 (\<lambda>captureThreadId.
               bindE readVarUInt (\<lambda>processorNumber. returnE ())))) r2 = (Inr (), r3) \<and>
     (\<exists>r4. (if flagSet (eventFlags ev) 0x04 then readVarInt64 else returnE (prevThreadId prev)) r3
              = (Inr (eh_threadId ev), r4) \<and>
     (\<exists>r5. (if flagSet (eventFlags ev) 0x08 then readVarUInt else returnE (prevStackId prev)) r4
              = (Inr (eh_stackId ev), r5) \<and>
     (\<exists>r6. readVarUInt64 r5 = (Inr (timestampDelta ev), r6) \<and>
     (\<exists>r7. whenE (flagSet (eventFlags ev) 0x10) (skip 16) r6 = (Inr (), r7) \<and>
     (\<exists>r8. whenE (flagSet (eventFlags ev) 0x20) (skip 16) r7 = (Inr (), r8) \<and>
     (\<exists>r9. (if flagSet (eventFlags ev) 0x80 then readVarUInt else returnE (prevPayloadSize prev)) r8
              = (Inr (eh_payloadSize ev), r9) \<and>
        (if 0 < eh_payloadSize ev \<and> hasBytes r9 (eh_payloadSize ev)
         then bindE (readBytes (eh_payloadSize ev)) (\<lambda>payload. returnE (Some payload))
         else returnE None) r9 = (Inr payload, r') \<and>
        eh_timestamp ev = prevTimestamp prev + timestampDelta ev))))))))"
  using assms
  apply (unfold readCompressedEvent_def)
  apply (drule bindE_Inr, elim exE conjE)+
  apply (clarsimp simp: returnE_def getE_def split del: if_split)
  apply (subst EventHeader.simps)
  apply assumption
  done


lemma returnE_Inr: "returnE x s = (Inr v, s') \<Longrightarrow> v = x \<and> s' = s"
  by (simp add: returnE_def)

lemma parseEvents_compressed_step:
  assumes "0 < remaining r" and "readCompressedEvent prev r = (Inr (ev, payload), r')"
  shows "parseEvents True prev p r =
           parseEvents True (nextPrev ev)
             (case payload of
                None \<Rightarrow> p
              | Some pl \<Rightarrow> processEvent (eh_metadataId ev) (eh_threadId ev) (eh_timestamp ev)
                             (eh_stackId ev) pl p) r'"
  using assms by (subst parseEvents.simps) simp

text \<open>The definitions that evaluate the cursor on a concrete buffer.\<close>

lemmas cursor_eval =
  readByte_def peekByte_def readFixed_def readInt16LE_def readUInt16LE_def readInt32LE_def
  readUInt32LE_def readInt64LE_def readUInt64LE_def readBytes_def readVarUInt_def
  readVarUIntLoop.simps readVarInt64_def readVarUInt64_def readVar64Loop.simps
  readNullTerminatedUTF16_def readUTF16Loop.simps fromCharCode_def maxCallArguments_def
  readAsciiString_def skip_def subReader_def
  newReader_def hasBytes_def remaining_def advance_def bufAt_def toInt32_def leBytes_def
  toSigned_def jsSlice_def jsToStringAscii_def bindE_def returnE_def throwE_def whenE_def
  getE_def flagSet_def Let_def

section \<open>Invariants of the tables\<close>

text \<open>
  What holds of the tables of the parser at every moment of a parse: a schema is stored under
  its own metadata id, a stack under its own stack id, and an allocation entry under its own type
  name with a count and a total that match its list of events; the table of method profiles
  stays empty until the pass after the walk.
\<close>

definition metadataKeyed :: "(int \<times> EventMetadata) list \<Rightarrow> bool" where
  "metadataKeyed tbl = list_all (\<lambda>(k, m). metadataId m = k) tbl"

definition stacksKeyed :: "(int \<times> StackInfo) list \<Rightarrow> bool" where
  "stacksKeyed tbl = list_all (\<lambda>(k, s). stackId s = k) tbl"

definition allocationSummed :: "AllocationInfo \<Rightarrow> bool" where
  "allocationSummed a \<longleftrightarrow>
     count a = length (ai_allocations a) \<and>
     totalSize a = sum_list (map ae_size (ai_allocations a)) \<and>
     list_all (\<lambda>e. ae_typeName e = typeName a) (ai_allocations a)"

definition allocationsSummed :: "(jsstring \<times> AllocationInfo) list \<Rightarrow> bool" where
  "allocationsSummed tbl = list_all (\<lambda>(k, a). typeName a = k \<and> allocationSummed a) tbl"

definition parserInv :: "NetTraceParser \<Rightarrow> bool" where
  "parserInv p \<longleftrightarrow>
     metadataKeyed (this_metadata p) \<and> stacksKeyed (this_stacks p) \<and>
     allocationsSummed (allocations (result p)) \<and> methodProfiles (result p) = []"

lemma list_all_update:
  "list_all P al \<Longrightarrow> P (k, v) \<Longrightarrow> list_all P (AList.update k v al)"
  by (induction al) auto

lemma list_all_map_of:
  "list_all P al \<Longrightarrow> map_of al k = Some v \<Longrightarrow> P (k, v)"
  by (induction al) (auto split: if_splits)

lemma parserInv_reader [simp]: "parserInv (p\<lparr>this_reader := r\<rparr>) = parserInv p"
  by (simp add: parserInv_def)

lemma parserInv_newParser: "parserInv (newParser b)"
  by (simp add: parserInv_def newParser_def emptyResult_def metadataKeyed_def stacksKeyed_def
      allocationsSummed_def)

subsection \<open>Metadata blocks\<close>

lemma parseMetadataPayload_inv: "parserInv p \<Longrightarrow> parserInv (parseMetadataPayload reader p)"
  unfolding parseMetadataPayload_def parserInv_def metadataKeyed_def
  by (auto simp: Let_def intro!: list_all_update split: prod.splits sum.splits if_splits)

lemma parseMetadataEvent_inv:
  assumes "parserInv p" and "parseMetadataEvent c st p r = (Inr (st', p'), r')"
  shows "parserInv p'"
proof -
  from assms(2)[unfolded parseMetadataEvent_def] obtain st1 r1 where
    1: "bindE getE (\<lambda>reader.
          if 0 < hs_payloadSize st1 \<and> hasBytes reader (hs_payloadSize st1)
          then bindE (subReader (hs_payloadSize st1))
                 (\<lambda>payloadReader. returnE (st1, parseMetadataPayload payloadReader p))
          else returnE (st1, p)) r1 = (Inr (st', p'), r')"
    by (blast dest: bindE_Inr)
  then have "p' = p \<or> (\<exists>pr. p' = parseMetadataPayload pr p)"
    by (auto simp: bindE_def getE_def returnE_def split: if_splits prod.splits sum.splits)
  with assms(1) show ?thesis by (auto intro: parseMetadataPayload_inv)
qed

lemma parseMetadataEvents_inv:
  "parserInv p \<Longrightarrow> parserInv (parseMetadataEvents c st p r)"
proof (induction c st p r rule: parseMetadataEvents.induct)
  case (1 compressed state p reader)
  show ?case
  proof (cases "0 < remaining reader")
    case False
    with "1.prems" show ?thesis by (simp add: parseMetadataEvents.simps[of compressed state p reader])
  next
    case True
    obtain x reader' where pe: "parseMetadataEvent compressed state p reader = (x, reader')"
      by (cases "parseMetadataEvent compressed state p reader")
    show ?thesis
    proof (cases x)
      case (Inl e)
      with True pe "1.prems" show ?thesis
        by (simp add: parseMetadataEvents.simps[of compressed state p reader])
    next
      case (Inr y)
      obtain state' p' where y: "y = (state', p')" by (cases y)
      from pe Inr y have eq: "parseMetadataEvent compressed state p reader = (Inr (state', p'), reader')"
        by simp
      have "parserInv p'" using parseMetadataEvent_inv[OF "1.prems" eq] .
      from "1.IH"[OF True eq[symmetric] refl refl this] True eq show ?thesis
        by (simp add: parseMetadataEvents.simps[of compressed state p reader])
    qed
  qed
qed

lemma parseMetadataBlock_inv:
  "parserInv p \<Longrightarrow> parseMetadataBlock data p = Inr p' \<Longrightarrow> parserInv p'"
  unfolding parseMetadataBlock_def
  by (auto split: prod.splits sum.splits intro: parseMetadataEvents_inv)

subsection \<open>Stack blocks\<close>

lemma parseStacks_inv: "parserInv p \<Longrightarrow> parserInv (parseStacks i cnt cur p r)"
proof (induction i cnt cur p r rule: parseStacks.induct)
  case (1 i cnt currentId p r)
  show ?case
  proof (cases "i < cnt \<and> 4 \<le> remaining r")
    case False
    with "1.prems" show ?thesis by (auto simp add: parseStacks.simps[of i cnt currentId p r])
  next
    case True
    obtain x r1 where rd: "readUInt32LE r = (x, r1)" by (cases "readUInt32LE r")
    show ?thesis
    proof (cases x)
      case (Inl e)
      with True rd "1.prems" show ?thesis by (simp add: parseStacks.simps[of i cnt currentId p r])
    next
      case (Inr stackSize)
      show ?thesis
      proof (cases "stackSize = 0 \<or> \<not> hasBytes r1 stackSize")
        case stop: True
        with True rd Inr "1.prems" show ?thesis
          by (simp add: parseStacks.simps[of i cnt currentId p r])
      next
        case go: False
        obtain y r2 where ra: "readAddresses (this_pointerSize p) stackSize 0 [] r1 = (y, r2)"
          by (cases "readAddresses (this_pointerSize p) stackSize 0 [] r1")
        show ?thesis
        proof (cases y)
          case (Inl e)
          with True rd Inr go ra "1.prems" show ?thesis
            by (simp add: parseStacks.simps[of i cnt currentId p r])
        next
          case addrs: (Inr addrs)
          let ?p = "p\<lparr>this_stacks :=
                      AList.update currentId \<lparr>stackId = currentId, addresses = addrs\<rparr>
                        (this_stacks p)\<rparr>"
          have inv: "parserInv ?p"
            using "1.prems" by (simp add: parserInv_def stacksKeyed_def list_all_update)
          from "1.IH"[OF True rd[unfolded Inr, symmetric] refl go
              ra[unfolded addrs, symmetric] refl inv]
          show ?thesis using True rd Inr go ra addrs
            by (simp add: parseStacks.simps[of i cnt currentId p r])
        qed
      qed
    qed
  qed
qed

lemma parseStackBlock_inv: "parserInv p \<Longrightarrow> parserInv (parseStackBlock data p)"
  unfolding parseStackBlock_def
  by (auto split: prod.splits sum.splits intro: parseStacks_inv)

subsection \<open>Events\<close>

lemma addAllocation_tables:
  "this_metadata (addAllocation tn sz ts sid p) = this_metadata p"
  "this_stacks (addAllocation tn sz ts sid p) = this_stacks p"
  "methodProfiles (result (addAllocation tn sz ts sid p)) = methodProfiles (result p)"
  "allocations (result (addAllocation tn sz ts sid p)) =
     AList.update tn
       (let a = (case map_of (allocations (result p)) tn of
                   None \<Rightarrow> \<lparr>typeName = tn, count = 0, totalSize = 0, ai_allocations = []\<rparr>
                 | Some a \<Rightarrow> a)
        in a\<lparr>count := count a + 1, totalSize := totalSize a + sz,
              ai_allocations := ai_allocations a @
                [\<lparr>ae_typeName = tn, ae_size = sz, ae_timestamp = ts,
                  stackTrace = (case map_of (this_stacks p) sid of
                                  None \<Rightarrow> None
                                | Some stack \<Rightarrow> Some (map hexAddress (addresses stack)))\<rparr>]\<rparr>)
       (allocations (result p))"
  by (simp_all add: addAllocation_def Let_def)

lemma addAllocation_summed:
  assumes "allocationsSummed (allocations (result p))"
  shows "allocationsSummed (allocations (result (addAllocation tn sz ts sid p)))"
proof (cases "map_of (allocations (result p)) tn")
  case None
  then show ?thesis
    using assms unfolding addAllocation_tables allocationsSummed_def
    by (auto intro!: list_all_update simp: allocationSummed_def)
next
  case (Some a)
  from list_all_map_of[OF assms[unfolded allocationsSummed_def] Some]
  have "typeName a = tn" "allocationSummed a" by simp_all
  with Some show ?thesis
    using assms unfolding addAllocation_tables allocationsSummed_def
    by (auto intro!: list_all_update simp: allocationSummed_def)
qed

lemma addAllocation_inv: "parserInv p \<Longrightarrow> parserInv (addAllocation tn sz ts sid p)"
  using addAllocation_summed[of p tn sz ts sid]
  by (simp add: parserInv_def addAllocation_tables(1,2,3))

lemma parseAllocationEvent_inv: "parserInv p \<Longrightarrow> parserInv (parseAllocationEvent payload ts sid p)"
  unfolding parseAllocationEvent_def
  by (auto split: prod.splits sum.splits intro: addAllocation_inv)

lemma parseMethodLoadVerboseEvent_inv:
  "parserInv p \<Longrightarrow> parserInv (parseMethodLoadVerboseEvent payload p)"
  unfolding parseMethodLoadVerboseEvent_def
  by (auto simp: parserInv_def split: prod.splits sum.splits)

lemma parseMethodJittingStartedEvent_inv:
  "parserInv p \<Longrightarrow> parserInv (parseMethodJittingStartedEvent payload p)"
  unfolding parseMethodJittingStartedEvent_def
  by (auto simp: parserInv_def split: prod.splits sum.splits)

lemma processCpuSample_inv: "parserInv p \<Longrightarrow> parserInv (processCpuSample sid ts p)"
  by (simp add: processCpuSample_def parserInv_def)

lemma parserInv_counters [simp]:
  "parserInv (p\<lparr>dbg_totalEvents := a\<rparr>) = parserInv p"
  "parserInv (p\<lparr>dbg_eventCountsByMetadataId := b\<rparr>) = parserInv p"
  "parserInv (p\<lparr>dbg_allocationEvents := c\<rparr>) = parserInv p"
  "parserInv (p\<lparr>dbg_metadataBlocks := d\<rparr>) = parserInv p"
  "parserInv (p\<lparr>dbg_eventBlocks := e\<rparr>) = parserInv p"
  "parserInv (p\<lparr>dbg_providers := f\<rparr>) = parserInv p"
  "parserInv (p\<lparr>this_errors := g\<rparr>) = parserInv p"
  "parserInv (p\<lparr>this_pointerSize := h\<rparr>) = parserInv p"
  "parserInv (p\<lparr>this_processId := i\<rparr>) = parserInv p"
  "parserInv (p\<lparr>this_typeRegistry := j\<rparr>) = parserInv p"
  "parserInv (p\<lparr>this_nextTypeIndex := k\<rparr>) = parserInv p"
  "parserInv (p\<lparr>this_cpuSamples := l\<rparr>) = parserInv p"
  by (simp_all add: parserInv_def)

lemma processEvent_inv: "parserInv p \<Longrightarrow> parserInv (processEvent mid tid ts sid payload p)"
  unfolding processEvent_def Let_def
  by (auto split: option.splits
      intro!: parseAllocationEvent_inv parseMethodLoadVerboseEvent_inv
        parseMethodJittingStartedEvent_inv processCpuSample_inv)

lemma parseEvents_inv: "parserInv p \<Longrightarrow> parserInv (parseEvents c prev p r)"
proof (induction c prev p r rule: parseEvents.induct)
  case (1 compressed prev p reader)
  note unf = parseEvents.simps[of compressed prev p reader]
    parseEvents.simps[of True prev p reader] parseEvents.simps[of False prev p reader]
  show ?case
  proof (cases "0 < remaining reader")
    case False
    with "1.prems" show ?thesis by (simp add: unf)
  next
    case rem: True
    show ?thesis
    proof (cases compressed)
      case True
      obtain x reader' where rc: "readCompressedEvent prev reader = (x, reader')"
        by (cases "readCompressedEvent prev reader")
      show ?thesis
      proof (cases x)
        case (Inl e)
        with rem True rc "1.prems" show ?thesis by (simp add: unf)
      next
        case (Inr y)
        obtain ev payload where y: "y = (ev, payload)" by (cases y)
        let ?p = "case payload of
                    None \<Rightarrow> p
                  | Some pl \<Rightarrow> processEvent (eh_metadataId ev) (eh_threadId ev) (eh_timestamp ev)
                                 (eh_stackId ev) pl p"
        have inv: "parserInv ?p"
          using "1.prems" by (auto split: option.splits intro: processEvent_inv)
        from rc Inr y have eq: "(Inr (ev, payload), reader') = readCompressedEvent prev reader"
          by simp
        from "1.IH"(1)[OF rem True eq refl refl inv] rem True eq[symmetric]
        show ?thesis by (simp add: unf)
      qed
    next
      case False
      show ?thesis
      proof (cases "hasBytes reader 4")
        case nb: False
        with rem False "1.prems" show ?thesis by (simp add: unf)
      next
        case hb: True
        obtain x reader' where ru: "readUncompressedEvent reader = (x, reader')"
          by (cases "readUncompressedEvent reader")
        show ?thesis
        proof (cases x)
          case (Inl e)
          with rem False hb ru "1.prems" show ?thesis by (simp add: unf)
        next
          case (Inr y)
          show ?thesis
          proof (cases y)
            case None
            with rem False hb ru Inr "1.prems" show ?thesis by (simp add: unf)
          next
            case (Some z)
            obtain mid tid ts sid payload where z: "z = (mid, tid, ts, sid, payload)"
              by (cases z)
            let ?p = "case payload of
                        None \<Rightarrow> p
                      | Some pl \<Rightarrow> processEvent mid tid ts sid pl p"
            have inv: "parserInv ?p"
              using "1.prems" by (auto split: option.splits intro: processEvent_inv)
            from ru Inr Some z
            have eq: "(Inr (Some (mid, tid, ts, sid, payload)), reader') = readUncompressedEvent reader"
              by simp
            have nhb: "\<not> \<not> hasBytes reader 4" using hb by simp
            from "1.IH"(2)[OF rem False nhb eq refl refl refl refl refl refl inv]
              rem False hb eq[symmetric]
            show ?thesis by (simp add: unf)
          qed
        qed
      qed
    qed
  qed
qed

lemma parseEventBlock_inv:
  "parserInv p \<Longrightarrow> parseEventBlock data p = Inr p' \<Longrightarrow> parserInv p'"
  unfolding parseEventBlock_def
  by (auto split: prod.splits sum.splits intro: parseEvents_inv)

subsection \<open>The container driver\<close>

lemma parseTraceBlob_inv: "parserInv p \<Longrightarrow> parseTraceBlob data p = (x, p') \<Longrightarrow> parserInv p'"
  unfolding parseTraceBlob_def
  by (auto simp: Let_def split: prod.splits sum.splits)

lemma parserInv_traceInfo [simp]:
  "parserInv (p\<lparr>result := (result p)\<lparr>traceInfo := t\<rparr>\<rparr>) = parserInv p"
  by (simp add: parserInv_def)

lemma pushError_inv [simp]: "parserInv (pushError x p) = parserInv p"
  by (simp add: pushError_def)

lemma processBlock_inv: "parserInv p \<Longrightarrow> parserInv (processBlock typeInfo data p)"
  unfolding processBlock_def Let_def
  by (auto split: prod.splits sum.splits
      dest: parseTraceBlob_inv parseMetadataBlock_inv[rotated] parseEventBlock_inv[rotated]
      intro: parseStackBlock_inv)

text \<open>A computation of the driver keeps an invariant of the parser.\<close>

definition preservesE :: "('s \<Rightarrow> bool) \<Rightarrow> ('a, 's) exn \<Rightarrow> bool" where
  "preservesE I m \<longleftrightarrow> (\<forall>s x s'. I s \<longrightarrow> m s = (x, s') \<longrightarrow> I s')"

lemma preservesE_D: "preservesE I m \<Longrightarrow> I s \<Longrightarrow> m s = (x, s') \<Longrightarrow> I s'"
  unfolding preservesE_def by blast

lemma preservesE_returnE [intro!, simp]: "preservesE I (returnE v)"
  by (simp add: preservesE_def returnE_def)

lemma preservesE_getE [intro!, simp]: "preservesE I getE"
  by (simp add: preservesE_def getE_def)

lemma preservesE_bindE [intro!]:
  assumes "preservesE I m" and "\<And>v. preservesE I (f v)"
  shows "preservesE I (bindE m f)"
proof -
  have "I s'" if i: "I s" and b: "bindE m f s = (x, s')" for s x s'
  proof -
    from bindE_cases[OF b] consider
        (throws) e where "m s = (Inl e, s')"
      | (returns) w s1 where "m s = (Inr w, s1)" "f w s1 = (x, s')"
      by blast
    then show ?thesis
    proof cases
      case throws
      from preservesE_D[OF assms(1) i throws] show ?thesis .
    next
      case returns
      from preservesE_D[OF assms(2) preservesE_D[OF assms(1) i returns(1)] returns(2)]
      show ?thesis .
    qed
  qed
  then show ?thesis unfolding preservesE_def by blast
qed

lemma preservesE_catchE [intro!]:
  assumes "preservesE I m" and "\<And>e. preservesE I (h e)"
  shows "preservesE I (catchE m h)"
proof -
  have "I s'" if i: "I s" and c: "catchE m h s = (x, s')" for s x s'
  proof (cases "m s")
    case (Pair y s1)
    from preservesE_D[OF assms(1) i Pair] have i1: "I s1" .
    show ?thesis
    proof (cases y)
      case (Inl e)
      with c Pair have "h e s1 = (x, s')" by (simp add: catchE_def)
      from preservesE_D[OF assms(2) i1 this] show ?thesis .
    next
      case (Inr v)
      with c Pair i1 show ?thesis by (simp add: catchE_def)
    qed
  qed
  then show ?thesis unfolding preservesE_def by blast
qed

lemma preservesE_if [intro!]:
  "(c \<Longrightarrow> preservesE I m) \<Longrightarrow> (\<not> c \<Longrightarrow> preservesE I n) \<Longrightarrow> preservesE I (if c then m else n)"
  by simp

lemma preservesE_whenE [intro!]: "preservesE I m \<Longrightarrow> preservesE I (whenE c m)"
  by (simp add: whenE_def)

lemma preservesE_Let [intro!]: "(\<And>x. preservesE I (f x)) \<Longrightarrow> preservesE I (Let v f)"
  by (simp add: Let_def)

lemma preservesE_option [intro!]:
  "(v = None \<Longrightarrow> preservesE I m) \<Longrightarrow> (\<And>x. v = Some x \<Longrightarrow> preservesE I (f x)) \<Longrightarrow>
     preservesE I (case v of None \<Rightarrow> m | Some x \<Rightarrow> f x)"
  by (cases v) simp_all

lemma preservesE_modifyE [intro!]: "(\<And>s. I s \<Longrightarrow> I (f s)) \<Longrightarrow> preservesE I (modifyE f)"
  by (simp add: preservesE_def modifyE_def)

lemma preservesE_liftR [intro!, simp]: "preservesE parserInv (liftR m)"
  by (auto simp: preservesE_def liftR_def split: prod.splits)

lemma preservesE_parseTraceBlob [intro!, simp]: "preservesE parserInv (parseTraceBlob data)"
  unfolding preservesE_def using parseTraceBlob_inv by blast

lemma parserInv_offset [simp]:
  "parserInv (p\<lparr>this_reader := r, this_errors := g\<rparr>) = parserInv p"
  by (simp add: parserInv_def)

lemma preservesE_parseObjectPayload [intro!, simp]:
  "preservesE parserInv (parseObjectPayload typeInfo)"
  unfolding parseObjectPayload_def
  by (intro preservesE_bindE preservesE_getE preservesE_Let preservesE_catchE preservesE_if
      preservesE_modifyE preservesE_liftR preservesE_returnE preservesE_parseTraceBlob)
    (simp_all add: processBlock_inv)

lemma preservesE_readTypeDefinition [intro!, simp]: "preservesE parserInv readTypeDefinition"
  unfolding readTypeDefinition_def
  by (intro preservesE_bindE preservesE_getE preservesE_Let preservesE_modifyE
      preservesE_liftR preservesE_returnE) (simp add: parserInv_def)

lemma preservesE_parseBeginPrivateObject [intro!, simp]:
  "preservesE parserInv parseBeginPrivateObject"
  unfolding parseBeginPrivateObject_def
  by (intro preservesE_bindE preservesE_getE preservesE_Let preservesE_if preservesE_whenE
      preservesE_option preservesE_modifyE preservesE_liftR preservesE_returnE
      preservesE_readTypeDefinition preservesE_parseObjectPayload) simp_all

lemma preservesE_parseObject [intro!, simp]: "preservesE parserInv parseObject"
  unfolding parseObject_def
  by (intro preservesE_bindE preservesE_getE preservesE_if preservesE_whenE
      preservesE_liftR preservesE_returnE preservesE_parseBeginPrivateObject)

lemma parseObjectStreamLoop_inv: "parserInv p \<Longrightarrow> parserInv (parseObjectStreamLoop n p)"
proof (induction n p rule: parseObjectStreamLoop.induct)
  case (1 objectCount p)
  note unf = parseObjectStreamLoop.simps[of objectCount p]
  show ?case
  proof (cases "0 < remaining (this_reader p) \<and> objectCount < maxObjects")
    case False
    with "1.prems" show ?thesis by (auto simp: unf)
  next
    case True
    obtain x p' where po: "parseObject p = (x, p')" by (cases "parseObject p")
    from preservesE_D[OF preservesE_parseObject "1.prems" po] have inv: "parserInv p'" .
    show ?thesis
    proof (cases x)
      case (Inl e)
      show ?thesis
      proof (cases "remaining (this_reader p') < 10")
        case stop: True
        with True po Inl inv show ?thesis by (simp add: unf)
      next
        case go: False
        from "1.IH"(1)[OF True po[unfolded Inl, symmetric] refl go inv] True po Inl go
        show ?thesis by (simp add: unf)
      qed
    next
      case (Inr u)
      from "1.IH"(2)[OF True po[unfolded Inr, symmetric] refl inv] True po Inr
      show ?thesis by (simp add: unf)
    qed
  qed
qed

lemma computeMethodProfiles_tables [simp]:
  "metadata (computeMethodProfiles p res) = metadata res"
  "stacks (computeMethodProfiles p res) = stacks res"
  "allocations (computeMethodProfiles p res) = allocations res"
  "errors (computeMethodProfiles p res) = errors res"
  "traceInfo (computeMethodProfiles p res) = traceInfo res"
  "methods (computeMethodProfiles p res) = methods res"
  "allocationSamples (computeMethodProfiles p res) = allocationSamples res"
  by (simp_all add: computeMethodProfiles_def Let_def)

text \<open>
  What \<^verbatim>\<open>parse\<close> returns: either the empty result with one error, or the tables of the
  parser after the walk over the objects.
\<close>

lemma parse_cases:
  "(\<exists>e. parse b = emptyResult\<lparr>errors := [ParseError e]\<rparr>) \<or>
   (\<exists>p. parserInv p \<and> metadata (parse b) = this_metadata p \<and> stacks (parse b) = this_stacks p \<and>
        allocations (parse b) = allocations (result p) \<and>
        methodProfiles (parse b) =
          methodProfiles (computeMethodProfiles p
            ((result p)\<lparr>metadata := this_metadata p, stacks := this_stacks p,
                          errors := this_errors p\<rparr>)))"
proof (cases "length b < 32 \<or> take 8 b \<noteq> magic")
  case True
  then show ?thesis by (auto simp: parse_def)
next
  case False
  obtain x reader where rh: "readHeaderString \<lparr>buffer = b, offset = 8\<rparr> = (x, reader)"
    by (cases "readHeaderString \<lparr>buffer = b, offset = 8\<rparr>")
  show ?thesis
  proof (cases x)
    case (Inl e)
    with False rh show ?thesis by (auto simp: parse_def)
  next
    case (Inr headerString)
    show ?thesis
    proof (cases "startsWith headerString banner")
      case nb: False
      with False rh Inr show ?thesis by (auto simp: parse_def)
    next
      case sb: True
      let ?p = "parseObjectStream ((newParser b)\<lparr>this_reader := reader\<rparr>)"
      have "parserInv ?p"
        unfolding parseObjectStream_def
        by (rule parseObjectStreamLoop_inv) (simp add: parserInv_newParser)
      moreover have "metadata (parse b) = this_metadata ?p \<and> stacks (parse b) = this_stacks ?p \<and>
        allocations (parse b) = allocations (result ?p) \<and>
        methodProfiles (parse b) =
          methodProfiles (computeMethodProfiles ?p
            ((result ?p)\<lparr>metadata := this_metadata ?p, stacks := this_stacks ?p,
                           errors := this_errors ?p\<rparr>))"
        using False rh Inr sb by (simp add: parse_def Let_def)
      ultimately show ?thesis by blast
    qed
  qed
qed

lemma parse_tables_inv:
  "metadataKeyed (metadata (parse b)) \<and> stacksKeyed (stacks (parse b)) \<and>
   allocationsSummed (allocations (parse b))"
  using parse_cases[of b]
  by (auto simp: parserInv_def emptyResult_def metadataKeyed_def stacksKeyed_def
      allocationsSummed_def)

section \<open>Fatal errors\<close>





section \<open>The schema table\<close>

lemma parseMetadataPayload_stores:
  "this_metadata (parseMetadataPayload reader p) = this_metadata p \<or>
   (\<exists>pid md r1. readInt32LE reader = (Inr pid, r1) \<and> metadataId md = pid \<and>
      this_metadata (parseMetadataPayload reader p) = AList.update pid md (this_metadata p))"
proof (cases "readInt32LE reader")
  case (Pair x r1)
  show ?thesis
  proof (cases x)
    case (Inl e)
    with Pair show ?thesis
      by (simp add: parseMetadataPayload_def readMetadataHead_def bindE_def)
  next
    case (Inr pid)
    with Pair have rd: "readInt32LE reader = (Inr pid, r1)" by simp
    show ?thesis
    proof (cases "readMetadataHead reader")
      case head: (Pair y r2)
      show ?thesis
      proof (cases y)
        case (Inl e)
        with head show ?thesis by (simp add: parseMetadataPayload_def)
      next
        case ok: (Inr t)
        obtain a pn ei en kw ve le where t: "t = (a, pn, ei, en, kw, ve, le)"
          by (cases t) auto
        from head ok t Pair Inr have a: "a = pid"
          by (auto simp: readMetadataHead_def dest!: bindE_Inr simp: returnE_def)
        define fr where "fr = (if 4 \<le> remaining r2
                 then bindE readInt32LE (\<lambda>fieldCount. readMetadataFields 0 fieldCount []) r2
                 else (Inr [], r2))"
        obtain z r3 where fr: "fr = (z, r3)" by (cases fr)
        show ?thesis
        proof (cases z)
          case (Inl e)
          with head ok t fr have "this_metadata (parseMetadataPayload reader p) = this_metadata p"
            by (simp add: parseMetadataPayload_def Let_def fr_def[symmetric])
          then show ?thesis by blast
        next
          case (Inr fs)
          let ?md = "\<lparr>metadataId = a, providerName = pn, eventId = ei, eventName = en,
                      md_keywords = kw, version = ve, level = le, opcode = 0, md_fields = fs\<rparr>"
          from head ok t fr Inr
          have "this_metadata (parseMetadataPayload reader p) = AList.update a ?md (this_metadata p)"
            by (simp add: parseMetadataPayload_def Let_def fr_def[symmetric])
          then have "readInt32LE reader = (Inr pid, r1) \<and> metadataId ?md = pid \<and>
              this_metadata (parseMetadataPayload reader p) = AList.update pid ?md (this_metadata p)"
            using rd a by simp
          then show ?thesis by (intro disjI2 exI)
        qed
      qed
    qed
  qed
qed

lemma parseMetadataEvent_stores:
  assumes "parseMetadataEvent c st p r = (Inr (st', p'), r')"
  shows "this_metadata p' = this_metadata p \<or>
         (\<exists>payloadReader pid md r1.
            readInt32LE payloadReader = (Inr pid, r1) \<and> metadataId md = pid \<and>
            this_metadata p' = AList.update pid md (this_metadata p))"
proof -
  from assms[unfolded parseMetadataEvent_def] obtain st1 r1 where
    1: "bindE getE (\<lambda>reader.
          if 0 < hs_payloadSize st1 \<and> hasBytes reader (hs_payloadSize st1)
          then bindE (subReader (hs_payloadSize st1))
                 (\<lambda>payloadReader. returnE (st1, parseMetadataPayload payloadReader p))
          else returnE (st1, p)) r1 = (Inr (st', p'), r')"
    by (blast dest: bindE_Inr)
  then have "p' = p \<or> (\<exists>pr. p' = parseMetadataPayload pr p)"
    by (auto simp: bindE_def getE_def returnE_def split: if_splits prod.splits sum.splits)
  then show ?thesis using parseMetadataPayload_stores by blast
qed

text \<open>A compressed metadata event whose header carries the id 99 and whose payload carries 7.\<close>

definition exampleMetadataEvent :: "byte list" where
  "exampleMetadataEvent =
     [129, 99, 0, 34, 7, 0, 0, 0, 65, 0, 0, 0, 10, 0, 0, 0, 0, 0,
      0, 0, 0, 0, 0, 0, 0, 0, 0, 0, 0, 0, 0, 0, 0, 0, 0, 0, 0, 0]"

lemmas parser_eval =
  parseMetadataPayload_def readMetadataHead_def readMetadataFields.simps
  readMetadataEventHeader_def parseMetadataEvent_def parseMetadataEvents.simps
  parseMetadataBlock_def setAdd_def

lemma exampleMetadataEvent_parsed:
  "parseMetadataEvent True
     \<lparr>hs_metadataId = 0, hs_sequenceNumber = 0, hs_captureThreadId = 0, hs_threadId = 0,
      hs_stackId = 0, hs_timestamp = 0, hs_payloadSize = 0\<rparr>
     (newParser []) (newReader exampleMetadataEvent)
   = (Inr (\<lparr>hs_metadataId = 99, hs_sequenceNumber = 1, hs_captureThreadId = 0,
             hs_threadId = 0, hs_stackId = 0, hs_timestamp = 0, hs_payloadSize = 34\<rparr>,
           (newParser [])\<lparr>this_metadata :=
              [(7, \<lparr>metadataId = 7, providerName = [65], eventId = 10, eventName = [],
                    md_keywords = 0, version = 0, level = 0, opcode = 0, md_fields = []\<rparr>)],
              dbg_providers := [[65]]\<rparr>),
      \<lparr>buffer = exampleMetadataEvent, offset = 38\<rparr>)"
  by (simp add: exampleMetadataEvent_def parser_eval cursor_eval newParser_def)

section \<open>The allocation table\<close>

text \<open>
  Claim C5. Every entry of the allocation table that \<^verbatim>\<open>parse\<close> returns is stored under its type
  name, its count is the number of the allocation events recorded in it and its total size is the
  sum of their sizes; \<^verbatim>\<open>addAllocation\<close> keeps this true of the table it adds to.
\<close>

theorem allocation_totals:
  "allocationsSummed (allocations (parse b))
   \<and> (allocationsSummed (allocations (result p)) \<longrightarrow>
        allocationsSummed (allocations (result (addAllocation tn sz ts sid p))))
   \<and> (allocationsSummed tbl \<and> map_of tbl A = Some info \<longrightarrow>
        typeName info = A \<and> count info = length (ai_allocations info) \<and>
        totalSize info = sum_list (map ae_size (ai_allocations info)))"
proof -
  have 1: "allocationsSummed (allocations (parse b))" using parse_tables_inv by blast
  have 3: "allocationsSummed tbl \<and> map_of tbl A = Some info \<longrightarrow>
        typeName info = A \<and> count info = length (ai_allocations info) \<and>
        totalSize info = sum_list (map ae_size (ai_allocations info))"
    by (auto simp: allocationsSummed_def allocationSummed_def dest: list_all_map_of)
  from 1 3 addAllocation_summed show ?thesis by blast
qed

text \<open>Two allocations of one type, of 64 and 128 bytes, recorded from the empty table.\<close>

definition twoAllocations :: NetTraceParser where
  "twoAllocations = addAllocation [84] 128 14 1 (addAllocation [84] 64 5 1 (newParser []))"

theorem allocation_totals_witness:
  "allocationsSummed (allocations (result (newParser [])))
   \<and> allocationsSummed (allocations (result twoAllocations))
   \<and> (\<exists>info. map_of (allocations (result twoAllocations)) [84] = Some info \<and>
        count info = 2 \<and> totalSize info = 192 \<and> map ae_size (ai_allocations info) = [64, 128])"
proof -
  have 0: "allocationsSummed (allocations (result (newParser [])))"
    by (simp add: newParser_def emptyResult_def allocationsSummed_def)
  from allocation_totals[of "[]" "newParser []" "[84]" 64 5 1] 0
  have 1: "allocationsSummed (allocations (result (addAllocation [84] 64 5 1 (newParser []))))"
    by blast
  from allocation_totals[of "[]" "addAllocation [84] 64 5 1 (newParser [])" "[84]" 128 14 1] 1
  have 2: "allocationsSummed (allocations (result twoAllocations))"
    unfolding twoAllocations_def by blast
  have 3: "\<exists>info. map_of (allocations (result twoAllocations)) [84] = Some info \<and>
        count info = 2 \<and> totalSize info = 192 \<and> map ae_size (ai_allocations info) = [64, 128]"
    by (simp add: twoAllocations_def addAllocation_def newParser_def emptyResult_def Let_def)
  from 0 2 3 show ?thesis by blast
qed

section \<open>The byte cursor at the end of its buffer\<close>

text \<open>
  The bytes a cursor has not read yet, the continuation bit of a varint byte, and the
  16-bit little-endian units that a run of bytes holds in full.
\<close>

definition unreadBytes :: "BufferReader \<Rightarrow> byte list" where
  "unreadBytes r = drop (nat (offset r)) (buffer r)"

definition continues :: "byte \<Rightarrow> bool" where
  "continues b \<longleftrightarrow> b AND 0x80 \<noteq> 0"

text \<open>
  A varint of at most \<open>maxBytes\<close> bytes runs out of bytes when fewer than \<open>maxBytes\<close> bytes are
  left and every one of them announces another.
\<close>

definition runsOut :: "nat \<Rightarrow> BufferReader \<Rightarrow> bool" where
  "runsOut maxBytes r \<longleftrightarrow>
     length (unreadBytes r) < maxBytes \<and> list_all continues (unreadBytes r)"

fun codeUnits :: "byte list \<Rightarrow> nat list" where
  "codeUnits (a # b # bs) = (unat a + 256 * unat b) # codeUnits bs"
| "codeUnits bs = []"

text \<open>The units of a string that starts at the cursor: those before the first zero unit.\<close>

definition stringUnits :: "BufferReader \<Rightarrow> nat list" where
  "stringUnits r = takeWhile (\<lambda>c. c \<noteq> 0) (codeUnits (unreadBytes r))"

definition terminated :: "BufferReader \<Rightarrow> bool" where
  "terminated r \<longleftrightarrow> 0 \<in> set (codeUnits (unreadBytes r))"

lemma readFixed_underflow:
  "\<not> hasBytes r (int n) \<Longrightarrow> readFixed n conv r = (Inl (EndOfBuffer (offset r)), r)"
  by (simp add: readFixed_def)

lemma and_0x80_bit: "(w AND 0x80 \<noteq> 0) \<longleftrightarrow> bit w 7" for w :: "'a::len word"
proof -
  have "(0x80 :: 'a word) = 2 ^ 7" by simp
  then show ?thesis by (simp only: and_exp_eq_0_iff_not_bit) simp
qed

lemma toInt32_continues: "toInt32 (Some x) AND 0x80 \<noteq> 0 \<longleftrightarrow> continues x"
  unfolding toInt32_def continues_def option.case
  by (simp only: and_0x80_bit) (simp add: bit_ucast_iff)

lemma unreadBytes_Nil:
  "0 \<le> offset r \<Longrightarrow> unreadBytes r = [] \<longleftrightarrow> \<not> hasBytes r 1"
  by (auto simp: unreadBytes_def hasBytes_def)

lemma unreadBytes_Cons:
  assumes "0 \<le> offset r" and "unreadBytes r = x # xs"
  shows "hasBytes r 1" and "bufAt (buffer r) (offset r) = Some x"
    and "unreadBytes (advance 1 r) = xs" and "0 \<le> offset (advance 1 r)"
    and "buffer (advance 1 r) = buffer r"
proof -
  have lt: "nat (offset r) < length (buffer r)"
  proof (rule ccontr)
    assume "\<not> nat (offset r) < length (buffer r)"
    then have "drop (nat (offset r)) (buffer r) = []" by simp
    with assms(2) show False by (simp add: unreadBytes_def)
  qed
  with assms(1) show "hasBytes r 1" by (simp add: hasBytes_def)
  from assms(2) have "buffer r ! nat (offset r) = x"
    unfolding unreadBytes_def using lt by (metis nth_via_drop)
  with lt assms(1) show "bufAt (buffer r) (offset r) = Some x" by (simp add: bufAt_def)
  have "drop (Suc (nat (offset r))) (buffer r) = xs"
    using assms(2) unfolding unreadBytes_def by (metis drop_Suc tl_drop list.sel(3))
  moreover have "nat (offset r + 1) = Suc (nat (offset r))" using assms(1) by simp
  ultimately show "unreadBytes (advance 1 r) = xs" by (simp add: unreadBytes_def advance_def)
  show "0 \<le> offset (advance 1 r)" using assms(1) by (simp add: advance_def)
  show "buffer (advance 1 r) = buffer r" by (simp add: advance_def)
qed

lemma offset_at_end:
  assumes "0 \<le> offset r" and "inBuffer r" and "unreadBytes r = []"
  shows "r\<lparr>offset := int (length (buffer r))\<rparr> = r"
  using assms by (simp add: unreadBytes_def inBuffer_def)

lemma readVarUIntLoop_runsOut:
  "0 \<le> offset r \<Longrightarrow> inBuffer r \<Longrightarrow> list_all continues (unreadBytes r) \<Longrightarrow>
   shift + 7 * length (unreadBytes r) < 35 \<Longrightarrow>
     readVarUIntLoop acc shift r = (Inl EndOfBufferVarint, r\<lparr>offset := int (length (buffer r))\<rparr>)"
proof (induction "unreadBytes r" arbitrary: acc shift r)
  case Nil
  then have "\<not> hasBytes r 1" using unreadBytes_Nil[of r] by simp
  then have "readVarUIntLoop acc shift r = (Inl EndOfBufferVarint, r)"
    by (simp add: readVarUIntLoop.simps[of acc shift r])
  with offset_at_end[OF Nil.prems(1,2) Nil.hyps[symmetric]] show ?case by simp
next
  case (Cons x xs)
  note u = unreadBytes_Cons[OF Cons.prems(1) Cons.hyps(2)[symmetric]]
  define res' where "res' = acc OR push_bit shift (toInt32 (Some x) AND 0x7f)"
  from Cons.prems(3) Cons.hyps(2)[symmetric] have cx: "continues x" and cxs: "list_all continues xs"
    by simp_all
  from Cons.prems(4) Cons.hyps(2)[symmetric] have sh: "shift + 7 < 35"
    and sh': "(shift + 7) + 7 * length xs < 35" by simp_all
  have rb: "readByte r = (Inr (Some x), advance 1 r)" using u(1,2) by (simp add: readByte_def)
  have step: "readVarUIntLoop acc shift r = readVarUIntLoop res' (shift + 7) (advance 1 r)"
    by (subst readVarUIntLoop.simps)
      (simp add: u(1) rb Let_def res'_def toInt32_continues cx sh)
  have ib: "inBuffer (advance 1 r)" using u(1) by (simp add: inBuffer_def hasBytes_def advance_def)
  from Cons.hyps(1)[OF u(3)[symmetric] u(4) ib, of "shift + 7" res'] cxs sh' u(3)
  have "readVarUIntLoop res' (shift + 7) (advance 1 r)
      = (Inl EndOfBufferVarint, (advance 1 r)\<lparr>offset := int (length (buffer (advance 1 r)))\<rparr>)"
    by simp
  with step show ?case by (simp add: advance_def)
qed

lemma readVarUIntLoop_returns:
  "0 \<le> offset r \<Longrightarrow> inBuffer r \<Longrightarrow> shift < 35 \<Longrightarrow>
   \<not> (list_all continues (unreadBytes r) \<and> shift + 7 * length (unreadBytes r) < 35) \<Longrightarrow>
     \<exists>v r'. readVarUIntLoop acc shift r = (Inr v, r') \<and> buffer r' = buffer r \<and>
        offset r < offset r' \<and> inBuffer r'"
proof (induction "unreadBytes r" arbitrary: acc shift r)
  case Nil
  then show ?case by simp
next
  case (Cons x xs)
  note u = unreadBytes_Cons[OF Cons.prems(1) Cons.hyps(2)[symmetric]]
  define res' where "res' = acc OR push_bit shift (toInt32 (Some x) AND 0x7f)"
  have rb: "readByte r = (Inr (Some x), advance 1 r)" using u(1,2) by (simp add: readByte_def)
  have ib: "inBuffer (advance 1 r)" using u(1) by (simp add: inBuffer_def hasBytes_def advance_def)
  show ?case
  proof (cases "continues x \<and> shift + 7 < 35")
    case True
    have step: "readVarUIntLoop acc shift r = readVarUIntLoop res' (shift + 7) (advance 1 r)"
      by (subst readVarUIntLoop.simps)
        (simp add: u(1) rb Let_def res'_def toInt32_continues True)
    from Cons.prems(4) Cons.hyps(2)[symmetric] True
    have not': "\<not> (list_all continues xs \<and> (shift + 7) + 7 * length xs < 35)" by simp
    from True have s': "shift + 7 < 35" by simp
    from Cons.hyps(1)[OF u(3)[symmetric] u(4) ib s', of res'] not' u(3)
    obtain v r' where "readVarUIntLoop res' (shift + 7) (advance 1 r) = (Inr v, r')"
      "buffer r' = buffer (advance 1 r)" "offset (advance 1 r) < offset r'" "inBuffer r'"
      by auto
    with step show ?thesis by (auto simp: advance_def)
  next
    case False
    have "readVarUIntLoop acc shift r = (Inr (uint res'), advance 1 r)"
      using False
      by (subst readVarUIntLoop.simps)
        (auto simp add: u(1) rb Let_def res'_def toInt32_continues)
    with ib show ?thesis by (auto simp: advance_def)
  qed
qed

lemma readVar64Loop_runsOut:
  "0 \<le> offset r \<Longrightarrow> inBuffer r \<Longrightarrow> list_all continues (unreadBytes r) \<Longrightarrow>
   shift + 7 * length (unreadBytes r) < 70 \<Longrightarrow>
     readVar64Loop msg acc shift r = (Inl msg, r\<lparr>offset := int (length (buffer r))\<rparr>)"
proof (induction "unreadBytes r" arbitrary: acc shift r)
  case Nil
  then have "\<not> hasBytes r 1" using unreadBytes_Nil[of r] by simp
  then have "readVar64Loop msg acc shift r = (Inl msg, r)"
    by (simp add: readVar64Loop.simps[of msg acc shift r])
  with offset_at_end[OF Nil.prems(1,2) Nil.hyps[symmetric]] show ?case by simp
next
  case (Cons x xs)
  note u = unreadBytes_Cons[OF Cons.prems(1) Cons.hyps(2)[symmetric]]
  define res' where "res' = acc OR push_bit shift (uint (toInt32 (Some x) AND 0x7f))"
  from Cons.prems(3) Cons.hyps(2)[symmetric] have cx: "continues x" and cxs: "list_all continues xs"
    by simp_all
  from Cons.prems(4) Cons.hyps(2)[symmetric] have sh: "shift + 7 < 70"
    and sh': "(shift + 7) + 7 * length xs < 70" by simp_all
  have rb: "readByte r = (Inr (Some x), advance 1 r)" using u(1,2) by (simp add: readByte_def)
  have step: "readVar64Loop msg acc shift r = readVar64Loop msg res' (shift + 7) (advance 1 r)"
    by (subst readVar64Loop.simps)
      (simp add: u(1) rb Let_def res'_def toInt32_continues cx sh)
  have ib: "inBuffer (advance 1 r)" using u(1) by (simp add: inBuffer_def hasBytes_def advance_def)
  from Cons.hyps(1)[OF u(3)[symmetric] u(4) ib, of "shift + 7" res'] cxs sh' u(3)
  have "readVar64Loop msg res' (shift + 7) (advance 1 r)
      = (Inl msg, (advance 1 r)\<lparr>offset := int (length (buffer (advance 1 r)))\<rparr>)"
    by simp
  with step show ?case by (simp add: advance_def)
qed

lemma readVar64Loop_returns:
  "0 \<le> offset r \<Longrightarrow> inBuffer r \<Longrightarrow> shift < 70 \<Longrightarrow>
   \<not> (list_all continues (unreadBytes r) \<and> shift + 7 * length (unreadBytes r) < 70) \<Longrightarrow>
     \<exists>v r'. readVar64Loop msg acc shift r = (Inr v, r') \<and> buffer r' = buffer r \<and>
        offset r < offset r' \<and> inBuffer r'"
proof (induction "unreadBytes r" arbitrary: acc shift r)
  case Nil
  then show ?case by simp
next
  case (Cons x xs)
  note u = unreadBytes_Cons[OF Cons.prems(1) Cons.hyps(2)[symmetric]]
  define res' where "res' = acc OR push_bit shift (uint (toInt32 (Some x) AND 0x7f))"
  have rb: "readByte r = (Inr (Some x), advance 1 r)" using u(1,2) by (simp add: readByte_def)
  have ib: "inBuffer (advance 1 r)" using u(1) by (simp add: inBuffer_def hasBytes_def advance_def)
  show ?case
  proof (cases "continues x \<and> shift + 7 < 70")
    case True
    have step: "readVar64Loop msg acc shift r = readVar64Loop msg res' (shift + 7) (advance 1 r)"
      by (subst readVar64Loop.simps)
        (simp add: u(1) rb Let_def res'_def toInt32_continues True)
    from Cons.prems(4) Cons.hyps(2)[symmetric] True
    have not': "\<not> (list_all continues xs \<and> (shift + 7) + 7 * length xs < 70)" by simp
    from True have s': "shift + 7 < 70" by simp
    from Cons.hyps(1)[OF u(3)[symmetric] u(4) ib s', of res'] not' u(3)
    obtain v r' where "readVar64Loop msg res' (shift + 7) (advance 1 r) = (Inr v, r')"
      "buffer r' = buffer (advance 1 r)" "offset (advance 1 r) < offset r'" "inBuffer r'"
      by auto
    with step show ?thesis by (auto simp: advance_def)
  next
    case False
    have "readVar64Loop msg acc shift r = (Inr res', advance 1 r)"
      using False
      by (subst readVar64Loop.simps)
        (auto simp add: u(1) rb Let_def res'_def toInt32_continues)
    with ib show ?thesis by (auto simp: advance_def)
  qed
qed


lemma unreadBytes_short:
  assumes "0 \<le> offset r" and "\<not> hasBytes r 2"
  shows "codeUnits (unreadBytes r) = []"
proof -
  from assms have "length (unreadBytes r) < 2" by (auto simp: unreadBytes_def hasBytes_def)
  then show ?thesis by (cases "unreadBytes r" rule: codeUnits.cases) auto
qed

lemma unreadBytes_unit:
  assumes "0 \<le> offset r" and "hasBytes r 2"
  shows "\<exists>a b bs. unreadBytes r = a # b # bs \<and>
           leBytes (buffer r) (offset r) 2 = int (unat a + 256 * unat b) \<and>
           unreadBytes (advance 2 r) = bs"
proof -
  from assms have "2 \<le> length (unreadBytes r)" by (auto simp: unreadBytes_def hasBytes_def)
  then obtain a b bs where u: "unreadBytes r = a # b # bs"
    by (cases "unreadBytes r" rule: codeUnits.cases) auto
  then have le: "leBytes (buffer r) (offset r) 2 = int (unat a + 256 * unat b)"
    by (simp add: leBytes_def unreadBytes_def numeral_2_eq_2)
  have "nat (offset r + 2) = 2 + nat (offset r)" using assms(1) by simp
  then have "unreadBytes (advance 2 r) = drop 2 (unreadBytes r)"
    by (simp add: unreadBytes_def advance_def)
  with u have "unreadBytes (advance 2 r) = bs" by (simp add: numeral_2_eq_2)
  with u le show ?thesis by blast
qed

lemma readUTF16Loop_units:
  "0 \<le> offset r \<Longrightarrow>
     readUTF16Loop chars r
       = (Inr (chars @ stringUnits r),
          r\<lparr>offset := offset r + 2 * int (length (stringUnits r)) + (if terminated r then 2 else 0)\<rparr>)"
proof (induction chars r rule: readUTF16Loop.induct)
  case (1 chars r)
  show ?case
  proof (cases "hasBytes r 2")
    case False
    from unreadBytes_short[OF "1.prems" False] False show ?thesis
      by (simp add: readUTF16Loop.simps[of chars r] stringUnits_def terminated_def)
  next
    case True
    from unreadBytes_unit[OF "1.prems" True] obtain a b bs where
      u: "unreadBytes r = a # b # bs"
      and le: "leBytes (buffer r) (offset r) 2 = int (unat a + 256 * unat b)"
      and u': "unreadBytes (advance 2 r) = bs" by blast
    define code where "code = int (unat a + 256 * unat b)"
    have rd: "readUInt16LE r = (Inr code, advance 2 r)"
      using True "1.prems" le by (simp add: readUInt16LE_def readFixed_def code_def)
    show ?thesis
    proof (cases "code = 0")
      case z: True
      then have "unat a + 256 * unat b = 0" unfolding code_def by (simp only: of_nat_eq_0_iff)
      with u have "stringUnits r = []" "terminated r"
        by (simp_all add: stringUnits_def terminated_def)
      with rd z True show ?thesis
        by (simp add: readUTF16Loop.simps[of chars r] advance_def)
    next
      case nz: False
      then have n0: "unat a + 256 * unat b \<noteq> 0"
        unfolding code_def by (simp only: of_nat_eq_0_iff not_False_eq_True)
      have nc: "nat code = unat a + 256 * unat b" unfolding code_def by (simp only: nat_int)
      have su: "stringUnits r = nat code # stringUnits (advance 2 r)"
        using u u' n0 by (simp add: stringUnits_def nc)
      have te: "terminated r \<longleftrightarrow> terminated (advance 2 r)"
        using u u' n0 by (auto simp add: terminated_def)
      have "0 \<le> offset (advance 2 r)" using "1.prems" by (simp add: advance_def)
      from "1.IH"[OF True rd[symmetric] refl nz this]
      have "readUTF16Loop (chars @ [nat code]) (advance 2 r)
         = (Inr ((chars @ [nat code]) @ stringUnits (advance 2 r)),
            (advance 2 r)\<lparr>offset := offset (advance 2 r)
               + 2 * int (length (stringUnits (advance 2 r)))
               + (if terminated (advance 2 r) then 2 else 0)\<rparr>)" .
      moreover have "readUTF16Loop chars r = readUTF16Loop (chars @ [nat code]) (advance 2 r)"
        using rd nz True by (simp add: readUTF16Loop.simps[of chars r])
      ultimately show ?thesis by (simp add: su te advance_def)
    qed
  qed
qed

lemma readNullTerminatedUTF16_units:
  "0 \<le> offset r \<Longrightarrow>
     readNullTerminatedUTF16 r
       = (if maxCallArguments < length (stringUnits r) then Inl CallStackExceeded
          else Inr (stringUnits r),
          r\<lparr>offset := offset r + 2 * int (length (stringUnits r)) + (if terminated r then 2 else 0)\<rparr>)"
  by (simp add: readNullTerminatedUTF16_def bindE_def readUTF16Loop_units fromCharCode_def)

text \<open>
  Claim C8. Stated: every cursor operation that would read past the end of the buffer fails with
  an end-of-buffer error and leaves the offset where it was, and a null-terminated UTF-16 string
  whose terminator straddles the end surfaces that error. The code differs on two counts, shown
  at concrete inputs: on the three bytes \<open>41 00 00\<close> (one unit, then half a terminator)
  \<^verbatim>\<open>readNullTerminatedUTF16\<close> returns the string of the one unit with the offset at 2 and
  throws nothing; on the single byte \<open>80\<close> (a varint that announces a second byte)
  \<^verbatim>\<open>readVarUInt\<close> throws with the offset moved from 0 to 1.
\<close>

theorem cursor_underflow_counterexample:
  "readNullTerminatedUTF16 \<lparr>buffer = [0x41, 0, 0], offset = 0\<rparr>
     = (Inr [65], \<lparr>buffer = [0x41, 0, 0], offset = 2\<rparr>)
   \<and> readVarUInt \<lparr>buffer = [0x80], offset = 0\<rparr>
     = (Inl EndOfBufferVarint, \<lparr>buffer = [0x80], offset = 1\<rparr>)"
  by (simp add: readNullTerminatedUTF16_def readUTF16Loop.simps readUInt16LE_def readFixed_def
      fromCharCode_def maxCallArguments_def bindE_def
      hasBytes_def advance_def leBytes_def readVarUInt_def readVarUIntLoop.simps readByte_def
      bufAt_def toInt32_def)

text \<open>
  Claim C8, as the code has it. A fixed-width read, a read of \<open>n\<close> raw bytes, of an ASCII string
  of length \<open>n\<close> or of a sub-cursor of \<open>n\<close> bytes that would pass the end of the buffer throws its
  end-of-buffer error and leaves the cursor as it was. A varint read, from a cursor inside its
  buffer, throws exactly when it runs out of bytes (fewer bytes are left than the varint may
  take, five or ten, and each of them announces another): it then throws its end-of-buffer error
  with the cursor at the end of the buffer, past the bytes it consumed, and otherwise returns with
  the cursor moved forward. \<^verbatim>\<open>readNullTerminatedUTF16\<close> throws no end-of-buffer error: it
  consumes the complete 2-byte units up to and with the first zero unit, or all of them when
  there is none, as when the terminator straddles the end, and returns the units before the
  zero; it throws only when those units are more than one call takes as arguments, the cursor
  past what it consumed.
\<close>

theorem cursor_underflow:
  "(\<not> hasBytes r 1 \<longrightarrow>
      readByte r = (Inl (EndOfBuffer (offset r)), r) \<and>
      peekByte r = (Inl (EndOfBuffer (offset r)), r))
   \<and> (\<not> hasBytes r 2 \<longrightarrow>
      readInt16LE r = (Inl (EndOfBuffer (offset r)), r) \<and>
      readUInt16LE r = (Inl (EndOfBuffer (offset r)), r))
   \<and> (\<not> hasBytes r 4 \<longrightarrow>
      readInt32LE r = (Inl (EndOfBuffer (offset r)), r) \<and>
      readUInt32LE r = (Inl (EndOfBuffer (offset r)), r))
   \<and> (\<not> hasBytes r 8 \<longrightarrow>
      readInt64LE r = (Inl (EndOfBuffer (offset r)), r) \<and>
      readUInt64LE r = (Inl (EndOfBuffer (offset r)), r))
   \<and> (\<not> hasBytes r n \<longrightarrow>
      readBytes n r = (Inl (EndOfBufferNeed (offset r) n), r) \<and>
      subReader n r = (Inl (EndOfBufferNeed (offset r) n), r) \<and>
      readAsciiString n r = (Inl (EndOfBufferString n), r))
   \<and> (0 \<le> offset v \<and> inBuffer v \<and> runsOut 5 v \<longrightarrow>
      readVarUInt v = (Inl EndOfBufferVarint, v\<lparr>offset := int (length (buffer v))\<rparr>))
   \<and> (0 \<le> offset v \<and> inBuffer v \<and> \<not> runsOut 5 v \<longrightarrow>
      (\<exists>x v'. readVarUInt v = (Inr x, v') \<and> buffer v' = buffer v \<and> offset v < offset v' \<and>
         inBuffer v'))
   \<and> (0 \<le> offset v \<and> inBuffer v \<and> runsOut 10 v \<longrightarrow>
      readVarInt64 v = (Inl EndOfBufferVarint64, v\<lparr>offset := int (length (buffer v))\<rparr>) \<and>
      readVarUInt64 v = (Inl EndOfBufferVaruint64, v\<lparr>offset := int (length (buffer v))\<rparr>))
   \<and> (0 \<le> offset v \<and> inBuffer v \<and> \<not> runsOut 10 v \<longrightarrow>
      (\<exists>x v'. readVarInt64 v = (Inr x, v') \<and> buffer v' = buffer v \<and> offset v < offset v' \<and>
         inBuffer v') \<and>
      (\<exists>x v'. readVarUInt64 v = (Inr x, v') \<and> buffer v' = buffer v \<and> offset v < offset v' \<and>
         inBuffer v'))
   \<and> (0 \<le> offset u \<longrightarrow>
      readNullTerminatedUTF16 u
        = (if maxCallArguments < length (stringUnits u) then Inl CallStackExceeded
           else Inr (stringUnits u),
           u\<lparr>offset := offset u + 2 * int (length (stringUnits u))
                          + (if terminated u then 2 else 0)\<rparr>))"
proof -
  have fixed: "\<not> hasBytes r 1 \<longrightarrow>
      readByte r = (Inl (EndOfBuffer (offset r)), r) \<and>
      peekByte r = (Inl (EndOfBuffer (offset r)), r)"
    by (simp add: readByte_def peekByte_def)
  have f2: "\<not> hasBytes r 2 \<longrightarrow>
      readInt16LE r = (Inl (EndOfBuffer (offset r)), r) \<and>
      readUInt16LE r = (Inl (EndOfBuffer (offset r)), r)"
    using readFixed_underflow[of r 2] by (simp add: readInt16LE_def readUInt16LE_def)
  have f4: "\<not> hasBytes r 4 \<longrightarrow>
      readInt32LE r = (Inl (EndOfBuffer (offset r)), r) \<and>
      readUInt32LE r = (Inl (EndOfBuffer (offset r)), r)"
    using readFixed_underflow[of r 4] by (simp add: readInt32LE_def readUInt32LE_def)
  have f8: "\<not> hasBytes r 8 \<longrightarrow>
      readInt64LE r = (Inl (EndOfBuffer (offset r)), r) \<and>
      readUInt64LE r = (Inl (EndOfBuffer (offset r)), r)"
    using readFixed_underflow[of r 8] by (simp add: readInt64LE_def readUInt64LE_def)
  have fn: "\<not> hasBytes r n \<longrightarrow>
      readBytes n r = (Inl (EndOfBufferNeed (offset r) n), r) \<and>
      subReader n r = (Inl (EndOfBufferNeed (offset r) n), r) \<and>
      readAsciiString n r = (Inl (EndOfBufferString n), r)"
    by (simp add: readBytes_def subReader_def bindE_def readAsciiString_def)
  have v1: "0 \<le> offset v \<and> inBuffer v \<and> runsOut 5 v \<longrightarrow>
      readVarUInt v = (Inl EndOfBufferVarint, v\<lparr>offset := int (length (buffer v))\<rparr>)"
    using readVarUIntLoop_runsOut[of v 0 0] by (simp add: readVarUInt_def runsOut_def)
  have v2: "0 \<le> offset v \<and> inBuffer v \<and> \<not> runsOut 5 v \<longrightarrow>
      (\<exists>x v'. readVarUInt v = (Inr x, v') \<and> buffer v' = buffer v \<and> offset v < offset v' \<and>
         inBuffer v')"
    using readVarUIntLoop_returns[of v 0 0] by (auto simp add: readVarUInt_def runsOut_def)
  have v3: "0 \<le> offset v \<and> inBuffer v \<and> runsOut 10 v \<longrightarrow>
      readVarInt64 v = (Inl EndOfBufferVarint64, v\<lparr>offset := int (length (buffer v))\<rparr>) \<and>
      readVarUInt64 v = (Inl EndOfBufferVaruint64, v\<lparr>offset := int (length (buffer v))\<rparr>)"
    using readVar64Loop_runsOut[of v 0 _ 0]
    by (simp add: readVarInt64_def readVarUInt64_def runsOut_def)
  have v4: "0 \<le> offset v \<and> inBuffer v \<and> \<not> runsOut 10 v \<longrightarrow>
      (\<exists>x v'. readVarInt64 v = (Inr x, v') \<and> buffer v' = buffer v \<and> offset v < offset v' \<and>
         inBuffer v') \<and>
      (\<exists>x v'. readVarUInt64 v = (Inr x, v') \<and> buffer v' = buffer v \<and> offset v < offset v' \<and>
         inBuffer v')"
    using readVar64Loop_returns[of v 0 _ 0]
    by (auto simp add: readVarInt64_def readVarUInt64_def runsOut_def)
  have s: "0 \<le> offset u \<longrightarrow>
      readNullTerminatedUTF16 u
        = (if maxCallArguments < length (stringUnits u) then Inl CallStackExceeded
           else Inr (stringUnits u),
           u\<lparr>offset := offset u + 2 * int (length (stringUnits u))
                          + (if terminated u then 2 else 0)\<rparr>)"
    using readNullTerminatedUTF16_units by blast
  from fixed f2 f4 f8 fn v1 v2 v3 v4 s show ?thesis by blast
qed

text \<open>
  At the end of three bytes; a varint of one byte that announces a second, and one of two bytes
  that ends; a string of one unit with half a terminator, and one with a whole terminator.
\<close>

theorem cursor_underflow_witness:
  "readByte \<lparr>buffer = [0x41, 0, 0], offset = 3\<rparr>
     = (Inl (EndOfBuffer 3), \<lparr>buffer = [0x41, 0, 0], offset = 3\<rparr>)
   \<and> readInt32LE \<lparr>buffer = [0x41, 0, 0], offset = 3\<rparr>
     = (Inl (EndOfBuffer 3), \<lparr>buffer = [0x41, 0, 0], offset = 3\<rparr>)
   \<and> readBytes 5 \<lparr>buffer = [0x41, 0, 0], offset = 3\<rparr>
     = (Inl (EndOfBufferNeed 3 5), \<lparr>buffer = [0x41, 0, 0], offset = 3\<rparr>)
   \<and> runsOut 5 \<lparr>buffer = [0x80], offset = 0\<rparr>
   \<and> readVarUInt \<lparr>buffer = [0x80], offset = 0\<rparr>
     = (Inl EndOfBufferVarint, \<lparr>buffer = [0x80], offset = 1\<rparr>)
   \<and> readVarUInt64 \<lparr>buffer = [0x80], offset = 0\<rparr>
     = (Inl EndOfBufferVaruint64, \<lparr>buffer = [0x80], offset = 1\<rparr>)
   \<and> \<not> runsOut 5 \<lparr>buffer = [0x80, 0x01], offset = 0\<rparr>
   \<and> (\<exists>x v'. readVarUInt \<lparr>buffer = [0x80, 0x01], offset = 0\<rparr> = (Inr x, v') \<and> 0 < offset v')
   \<and> readNullTerminatedUTF16 \<lparr>buffer = [0x41, 0, 0], offset = 0\<rparr>
     = (Inr [65], \<lparr>buffer = [0x41, 0, 0], offset = 2\<rparr>)
   \<and> readNullTerminatedUTF16 \<lparr>buffer = [0x41, 0, 0, 0, 7], offset = 0\<rparr>
     = (Inr [65], \<lparr>buffer = [0x41, 0, 0, 0, 7], offset = 4\<rparr>)"
proof -
  have a: "runsOut 5 \<lparr>buffer = [0x80], offset = 0\<rparr>" "runsOut 10 \<lparr>buffer = [0x80], offset = 0\<rparr>"
    by (simp_all add: runsOut_def unreadBytes_def continues_def)
  have b: "\<not> runsOut 5 \<lparr>buffer = [0x80, 0x01], offset = 0\<rparr>"
    by (simp add: runsOut_def unreadBytes_def continues_def)
  have c: "stringUnits \<lparr>buffer = [0x41, 0, 0], offset = 0\<rparr> = [65]"
    "\<not> terminated \<lparr>buffer = [0x41, 0, 0], offset = 0\<rparr>"
    "stringUnits \<lparr>buffer = [0x41, 0, 0, 0, 7], offset = 0\<rparr> = [65]"
    "terminated \<lparr>buffer = [0x41, 0, 0, 0, 7], offset = 0\<rparr>"
    by (simp_all add: stringUnits_def terminated_def unreadBytes_def)
  from cursor_underflow[of "\<lparr>buffer = [0x41, 0, 0], offset = 3\<rparr>" 5
      "\<lparr>buffer = [0x80], offset = 0\<rparr>" "\<lparr>buffer = [0x41, 0, 0], offset = 0\<rparr>"]
    cursor_underflow[of "\<lparr>buffer = [0x41, 0, 0], offset = 3\<rparr>" 5
      "\<lparr>buffer = [0x80, 0x01], offset = 0\<rparr>" "\<lparr>buffer = [0x41, 0, 0, 0, 7], offset = 0\<rparr>"]
    a b c
  show ?thesis
    by (simp add: hasBytes_def inBuffer_def maxCallArguments_def) blast
qed

section \<open>The carry of the compressed encoding\<close>

lemma readByte_Inr: "readByte r = (Inr b, r1) \<Longrightarrow> 0 < remaining r"
  by (auto simp: readByte_def hasBytes_def remaining_def split: if_splits)

lemma readCompressedEvent_chain:
  assumes "readCompressedEvent prev r = (Inr (ev, payload), r')"
  shows "\<exists>r1 r2 r3 r4 r5 r6 r7 r8 r9.
       readByte r = (Inr (eventFlags ev), r1)
     \<and> (if flagSet (eventFlags ev) 0x01 then readVarUInt r1 = (Inr (eh_metadataId ev), r2)
        else eh_metadataId ev = prevMetadataId prev \<and> r2 = r1)
     \<and> whenE (flagSet (eventFlags ev) 0x02)
          (bindE readVarUInt (\<lambda>sequenceDelta.
           bindE readVarInt64 (\<lambda>captureThreadId.
           bindE readVarUInt (\<lambda>processorNumber. returnE ())))) r2 = (Inr (), r3)
     \<and> (if flagSet (eventFlags ev) 0x04 then readVarInt64 r3 = (Inr (eh_threadId ev), r4)
        else eh_threadId ev = prevThreadId prev \<and> r4 = r3)
     \<and> (if flagSet (eventFlags ev) 0x08 then readVarUInt r4 = (Inr (eh_stackId ev), r5)
        else eh_stackId ev = prevStackId prev \<and> r5 = r4)
     \<and> readVarUInt64 r5 = (Inr (timestampDelta ev), r6)
     \<and> eh_timestamp ev = prevTimestamp prev + timestampDelta ev
     \<and> whenE (flagSet (eventFlags ev) 0x10) (skip 16) r6 = (Inr (), r7)
     \<and> whenE (flagSet (eventFlags ev) 0x20) (skip 16) r7 = (Inr (), r8)
     \<and> (if flagSet (eventFlags ev) 0x80 then readVarUInt r8 = (Inr (eh_payloadSize ev), r9)
        else eh_payloadSize ev = prevPayloadSize prev \<and> r9 = r8)
     \<and> (if 0 < eh_payloadSize ev \<and> hasBytes r9 (eh_payloadSize ev)
        then readBytes (eh_payloadSize ev) r9 = (Inr (the payload), r') \<and> payload \<noteq> None
        else payload = None \<and> r' = r9)"
proof -
  from readCompressedEvent_inversion[OF assms] obtain r1 r2 r3 r4 r5 r6 r7 r8 r9 where
    b: "readByte r = (Inr (eventFlags ev), r1)"
    and m: "(if flagSet (eventFlags ev) 0x01 then readVarUInt else returnE (prevMetadataId prev)) r1
          = (Inr (eh_metadataId ev), r2)"
    and q: "whenE (flagSet (eventFlags ev) 0x02)
          (bindE readVarUInt (\<lambda>sequenceDelta.
           bindE readVarInt64 (\<lambda>captureThreadId.
           bindE readVarUInt (\<lambda>processorNumber. returnE ())))) r2 = (Inr (), r3)"
    and t: "(if flagSet (eventFlags ev) 0x04 then readVarInt64 else returnE (prevThreadId prev)) r3
          = (Inr (eh_threadId ev), r4)"
    and s: "(if flagSet (eventFlags ev) 0x08 then readVarUInt else returnE (prevStackId prev)) r4
          = (Inr (eh_stackId ev), r5)"
    and d: "readVarUInt64 r5 = (Inr (timestampDelta ev), r6)"
    and a1: "whenE (flagSet (eventFlags ev) 0x10) (skip 16) r6 = (Inr (), r7)"
    and a2: "whenE (flagSet (eventFlags ev) 0x20) (skip 16) r7 = (Inr (), r8)"
    and p: "(if flagSet (eventFlags ev) 0x80 then readVarUInt else returnE (prevPayloadSize prev)) r8
          = (Inr (eh_payloadSize ev), r9)"
    and pl: "(if 0 < eh_payloadSize ev \<and> hasBytes r9 (eh_payloadSize ev)
         then bindE (readBytes (eh_payloadSize ev)) (\<lambda>payload. returnE (Some payload))
         else returnE None) r9 = (Inr payload, r')"
    and ts: "eh_timestamp ev = prevTimestamp prev + timestampDelta ev"
    by blast
  from m have 1: "if flagSet (eventFlags ev) 0x01 then readVarUInt r1 = (Inr (eh_metadataId ev), r2)
        else eh_metadataId ev = prevMetadataId prev \<and> r2 = r1"
    by (auto dest: returnE_Inr split: if_splits)
  from t have 2: "if flagSet (eventFlags ev) 0x04 then readVarInt64 r3 = (Inr (eh_threadId ev), r4)
        else eh_threadId ev = prevThreadId prev \<and> r4 = r3"
    by (auto dest: returnE_Inr split: if_splits)
  from s have 3: "if flagSet (eventFlags ev) 0x08 then readVarUInt r4 = (Inr (eh_stackId ev), r5)
        else eh_stackId ev = prevStackId prev \<and> r5 = r4"
    by (auto dest: returnE_Inr split: if_splits)
  from p have 4: "if flagSet (eventFlags ev) 0x80 then readVarUInt r8 = (Inr (eh_payloadSize ev), r9)
        else eh_payloadSize ev = prevPayloadSize prev \<and> r9 = r8"
    by (auto dest: returnE_Inr split: if_splits)
  from pl have 5: "if 0 < eh_payloadSize ev \<and> hasBytes r9 (eh_payloadSize ev)
        then readBytes (eh_payloadSize ev) r9 = (Inr (the payload), r') \<and> payload \<noteq> None
        else payload = None \<and> r' = r9"
    by (auto dest!: bindE_Inr returnE_Inr split: if_splits)
  from b 1 q 2 3 d ts a1 a2 4 5 show ?thesis by blast
qed

lemma readCompressedEvent_step:
  assumes "readCompressedEvent prev r = (Inr (ev, payload), r')"
  shows "parseEvents True prev p r =
           parseEvents True (nextPrev ev)
             (case payload of
                None \<Rightarrow> p
              | Some pl \<Rightarrow> processEvent (eh_metadataId ev) (eh_threadId ev) (eh_timestamp ev)
                             (eh_stackId ev) pl p) r'"
proof -
  from readCompressedEvent_chain[OF assms] obtain r1 where "readByte r = (Inr (eventFlags ev), r1)"
    by blast
  from parseEvents_compressed_step[OF readByte_Inr[OF this] assms] show ?thesis .
qed

text \<open>
  The header of an event block takes 20 bytes; a header size above 20 moves the cursor on, to
  the end of the block at most.
\<close>

lemma parseEventBlock_start:
  assumes "20 \<le> length data"
  shows "parseEventBlock data p =
           Inr (parseEvents (toSigned 16 (leBytes data 2 2) AND 1 \<noteq> 0)
                  \<lparr>prevMetadataId = 0, prevThreadId = 0, prevStackId = 0, prevTimestamp = 0,
                   prevPayloadSize = 0\<rparr> p
                  \<lparr>buffer = data,
                   offset = (if 20 < toSigned 16 (leBytes data 0 2)
                             then min (toSigned 16 (leBytes data 0 2)) (int (length data))
                             else 20)\<rparr>)"
  using assms
  by (simp add: parseEventBlock_def zeroPrev_def bindE_def readInt16LE_def readInt64LE_def
      readFixed_def hasBytes_def advance_def newReader_def whenE_def skip_def returnE_def
      min_def)

lemma parseEventBlock_short:
  assumes "length data < 20"
  shows "\<exists>e. parseEventBlock data p = Inl e"
  using assms
  by (simp add: parseEventBlock_def bindE_def readInt16LE_def readInt64LE_def
      readFixed_def hasBytes_def advance_def newReader_def whenE_def skip_def returnE_def)


text \<open>
  Claim C1. In the compressed encoding of an event block, an event is decoded by reading the
  flags byte and then, in this order, the metadata id, the thread id and the stack id, each read
  as a varint when its bit is set and taken from the carry when it is clear; then the timestamp
  delta, read as an unsigned 64-bit varint from the cursor whatever the flags are and added to
  the carried timestamp; then the payload size, read or carried in the same way. The loop hands
  the decoded event on as the carry of the next, and \<^verbatim>\<open>parseEventBlock\<close> starts the loop
  after the block header with a carry of zeros. So for two events in a row from the start of a
  compressed block, the second with flags 0, the four fields agree, the first timestamp is the
  first delta and the second is the sum of both deltas.
\<close>

theorem compressed_event_carry:
  "(readCompressedEvent prev r = (Inr (ev, payload), r') \<longrightarrow>
      (\<exists>r1 r2 r3 r4 r5 r6 r7 r8 r9.
          readByte r = (Inr (eventFlags ev), r1)
        \<and> (if flagSet (eventFlags ev) 0x01 then readVarUInt r1 = (Inr (eh_metadataId ev), r2)
           else eh_metadataId ev = prevMetadataId prev \<and> r2 = r1)
        \<and> whenE (flagSet (eventFlags ev) 0x02)
             (bindE readVarUInt (\<lambda>sequenceDelta.
              bindE readVarInt64 (\<lambda>captureThreadId.
              bindE readVarUInt (\<lambda>processorNumber. returnE ())))) r2 = (Inr (), r3)
        \<and> (if flagSet (eventFlags ev) 0x04 then readVarInt64 r3 = (Inr (eh_threadId ev), r4)
           else eh_threadId ev = prevThreadId prev \<and> r4 = r3)
        \<and> (if flagSet (eventFlags ev) 0x08 then readVarUInt r4 = (Inr (eh_stackId ev), r5)
           else eh_stackId ev = prevStackId prev \<and> r5 = r4)
        \<and> readVarUInt64 r5 = (Inr (timestampDelta ev), r6)
        \<and> eh_timestamp ev = prevTimestamp prev + timestampDelta ev
        \<and> whenE (flagSet (eventFlags ev) 0x10) (skip 16) r6 = (Inr (), r7)
        \<and> whenE (flagSet (eventFlags ev) 0x20) (skip 16) r7 = (Inr (), r8)
        \<and> (if flagSet (eventFlags ev) 0x80 then readVarUInt r8 = (Inr (eh_payloadSize ev), r9)
           else eh_payloadSize ev = prevPayloadSize prev \<and> r9 = r8)
        \<and> (if 0 < eh_payloadSize ev \<and> hasBytes r9 (eh_payloadSize ev)
           then readBytes (eh_payloadSize ev) r9 = (Inr (the payload), r') \<and> payload \<noteq> None
           else payload = None \<and> r' = r9))
      \<and> parseEvents True prev p r =
          parseEvents True (nextPrev ev)
            (case payload of
               None \<Rightarrow> p
             | Some pl \<Rightarrow> processEvent (eh_metadataId ev) (eh_threadId ev) (eh_timestamp ev)
                            (eh_stackId ev) pl p) r')
   \<and> (length data < 20 \<longrightarrow> (\<exists>e. parseEventBlock data p = Inl e))
   \<and> (20 \<le> length data \<longrightarrow>
        parseEventBlock data p =
          Inr (parseEvents (toSigned 16 (leBytes data 2 2) AND 1 \<noteq> 0)
                 \<lparr>prevMetadataId = 0, prevThreadId = 0, prevStackId = 0, prevTimestamp = 0,
                  prevPayloadSize = 0\<rparr> p
                 \<lparr>buffer = data,
                  offset = (if 20 < toSigned 16 (leBytes data 0 2)
                            then min (toSigned 16 (leBytes data 0 2)) (int (length data))
                            else 20)\<rparr>))
   \<and> (20 \<le> length data \<and> toSigned 16 (leBytes data 0 2) \<le> 20
        \<and> toSigned 16 (leBytes data 2 2) AND 1 \<noteq> 0
        \<and> readCompressedEvent zeroPrev \<lparr>buffer = data, offset = 20\<rparr> = (Inr (ev1, payload1), ra)
        \<and> readCompressedEvent (nextPrev ev1) ra = (Inr (ev2, payload2), rb)
        \<and> eventFlags ev2 = Some 0 \<longrightarrow>
          eh_metadataId ev2 = eh_metadataId ev1 \<and> eh_threadId ev2 = eh_threadId ev1
        \<and> eh_stackId ev2 = eh_stackId ev1 \<and> eh_payloadSize ev2 = eh_payloadSize ev1
        \<and> eh_timestamp ev1 = timestampDelta ev1
        \<and> eh_timestamp ev2 = timestampDelta ev1 + timestampDelta ev2
        \<and> parseEventBlock data p =
            Inr (parseEvents True (nextPrev ev2)
                   (case payload2 of
                      None \<Rightarrow>
                        (case payload1 of
                           None \<Rightarrow> p
                         | Some pl \<Rightarrow>
                             processEvent (eh_metadataId ev1) (eh_threadId ev1)
                               (eh_timestamp ev1) (eh_stackId ev1) pl p)
                    | Some pl2 \<Rightarrow>
                        processEvent (eh_metadataId ev2) (eh_threadId ev2) (eh_timestamp ev2)
                          (eh_stackId ev2) pl2
                          (case payload1 of
                             None \<Rightarrow> p
                           | Some pl \<Rightarrow>
                               processEvent (eh_metadataId ev1) (eh_threadId ev1)
                                 (eh_timestamp ev1) (eh_stackId ev1) pl p)) rb))"
proof -
  have one: "readCompressedEvent prev r = (Inr (ev, payload), r') \<longrightarrow>
      (\<exists>r1 r2 r3 r4 r5 r6 r7 r8 r9.
          readByte r = (Inr (eventFlags ev), r1)
        \<and> (if flagSet (eventFlags ev) 0x01 then readVarUInt r1 = (Inr (eh_metadataId ev), r2)
           else eh_metadataId ev = prevMetadataId prev \<and> r2 = r1)
        \<and> whenE (flagSet (eventFlags ev) 0x02)
             (bindE readVarUInt (\<lambda>sequenceDelta.
              bindE readVarInt64 (\<lambda>captureThreadId.
              bindE readVarUInt (\<lambda>processorNumber. returnE ())))) r2 = (Inr (), r3)
        \<and> (if flagSet (eventFlags ev) 0x04 then readVarInt64 r3 = (Inr (eh_threadId ev), r4)
           else eh_threadId ev = prevThreadId prev \<and> r4 = r3)
        \<and> (if flagSet (eventFlags ev) 0x08 then readVarUInt r4 = (Inr (eh_stackId ev), r5)
           else eh_stackId ev = prevStackId prev \<and> r5 = r4)
        \<and> readVarUInt64 r5 = (Inr (timestampDelta ev), r6)
        \<and> eh_timestamp ev = prevTimestamp prev + timestampDelta ev
        \<and> whenE (flagSet (eventFlags ev) 0x10) (skip 16) r6 = (Inr (), r7)
        \<and> whenE (flagSet (eventFlags ev) 0x20) (skip 16) r7 = (Inr (), r8)
        \<and> (if flagSet (eventFlags ev) 0x80 then readVarUInt r8 = (Inr (eh_payloadSize ev), r9)
           else eh_payloadSize ev = prevPayloadSize prev \<and> r9 = r8)
        \<and> (if 0 < eh_payloadSize ev \<and> hasBytes r9 (eh_payloadSize ev)
           then readBytes (eh_payloadSize ev) r9 = (Inr (the payload), r') \<and> payload \<noteq> None
           else payload = None \<and> r' = r9))
      \<and> parseEvents True prev p r =
          parseEvents True (nextPrev ev)
            (case payload of
               None \<Rightarrow> p
             | Some pl \<Rightarrow> processEvent (eh_metadataId ev) (eh_threadId ev) (eh_timestamp ev)
                            (eh_stackId ev) pl p) r'"
    using readCompressedEvent_chain[of prev r ev payload r']
      readCompressedEvent_step[of prev r ev payload r' p] by blast
  have short: "length data < 20 \<longrightarrow> (\<exists>e. parseEventBlock data p = Inl e)"
    using parseEventBlock_short by blast
  have start: "20 \<le> length data \<longrightarrow>
        parseEventBlock data p =
          Inr (parseEvents (toSigned 16 (leBytes data 2 2) AND 1 \<noteq> 0)
                 \<lparr>prevMetadataId = 0, prevThreadId = 0, prevStackId = 0, prevTimestamp = 0,
                  prevPayloadSize = 0\<rparr> p
                 \<lparr>buffer = data,
                  offset = (if 20 < toSigned 16 (leBytes data 0 2)
                            then min (toSigned 16 (leBytes data 0 2)) (int (length data))
                            else 20)\<rparr>)"
    using parseEventBlock_start by blast
  have two: "eh_metadataId ev2 = eh_metadataId ev1 \<and> eh_threadId ev2 = eh_threadId ev1
        \<and> eh_stackId ev2 = eh_stackId ev1 \<and> eh_payloadSize ev2 = eh_payloadSize ev1
        \<and> eh_timestamp ev1 = timestampDelta ev1
        \<and> eh_timestamp ev2 = timestampDelta ev1 + timestampDelta ev2
        \<and> parseEventBlock data p =
            Inr (parseEvents True (nextPrev ev2)
                   (case payload2 of
                      None \<Rightarrow>
                        (case payload1 of
                           None \<Rightarrow> p
                         | Some pl \<Rightarrow>
                             processEvent (eh_metadataId ev1) (eh_threadId ev1)
                               (eh_timestamp ev1) (eh_stackId ev1) pl p)
                    | Some pl2 \<Rightarrow>
                        processEvent (eh_metadataId ev2) (eh_threadId ev2) (eh_timestamp ev2)
                          (eh_stackId ev2) pl2
                          (case payload1 of
                             None \<Rightarrow> p
                           | Some pl \<Rightarrow>
                               processEvent (eh_metadataId ev1) (eh_threadId ev1)
                                 (eh_timestamp ev1) (eh_stackId ev1) pl p)) rb)"
    if len: "20 \<le> length data" and hs: "toSigned 16 (leBytes data 0 2) \<le> 20"
      and fl: "toSigned 16 (leBytes data 2 2) AND 1 \<noteq> 0"
      and e1: "readCompressedEvent zeroPrev \<lparr>buffer = data, offset = 20\<rparr> = (Inr (ev1, payload1), ra)"
      and e2: "readCompressedEvent (nextPrev ev1) ra = (Inr (ev2, payload2), rb)"
      and f0: "eventFlags ev2 = Some 0"
  proof -
    from readCompressedEvent_chain[OF e1] have t1: "eh_timestamp ev1 = timestampDelta ev1"
      by (auto simp: zeroPrev_def)
    from readCompressedEvent_chain[OF e2] f0
    have c2: "eh_metadataId ev2 = eh_metadataId ev1" "eh_threadId ev2 = eh_threadId ev1"
      "eh_stackId ev2 = eh_stackId ev1" "eh_payloadSize ev2 = eh_payloadSize ev1"
      "eh_timestamp ev2 = eh_timestamp ev1 + timestampDelta ev2"
      by (auto simp: flagSet_def toInt32_def nextPrev_def)
    have "parseEventBlock data p = Inr (parseEvents True zeroPrev p \<lparr>buffer = data, offset = 20\<rparr>)"
      using parseEventBlock_start[OF len, of p] hs fl by (simp add: zeroPrev_def)
    also have "parseEvents True zeroPrev p \<lparr>buffer = data, offset = 20\<rparr>
        = parseEvents True (nextPrev ev1)
            (case payload1 of
               None \<Rightarrow> p
             | Some pl \<Rightarrow> processEvent (eh_metadataId ev1) (eh_threadId ev1) (eh_timestamp ev1)
                            (eh_stackId ev1) pl p) ra"
      using readCompressedEvent_step[OF e1] .
    also have "\<dots> = parseEvents True (nextPrev ev2)
            (case payload2 of
               None \<Rightarrow>
                 (case payload1 of
                    None \<Rightarrow> p
                  | Some pl \<Rightarrow> processEvent (eh_metadataId ev1) (eh_threadId ev1)
                                 (eh_timestamp ev1) (eh_stackId ev1) pl p)
             | Some pl2 \<Rightarrow>
                 processEvent (eh_metadataId ev2) (eh_threadId ev2) (eh_timestamp ev2)
                   (eh_stackId ev2) pl2
                   (case payload1 of
                      None \<Rightarrow> p
                    | Some pl \<Rightarrow> processEvent (eh_metadataId ev1) (eh_threadId ev1)
                                   (eh_timestamp ev1) (eh_stackId ev1) pl p)) rb"
      using readCompressedEvent_step[OF e2] .
    finally show ?thesis using t1 c2 by simp
  qed
  from one short start two show ?thesis by blast
qed

text \<open>
  A compressed block of two allocation ticks. After the 20 bytes of the block header, the first
  event sets the metadata id 7, the thread id 42, the stack id 1 and the payload size 10 and has
  the delta 5; the second has flags 0 and the delta 9. The parser knows the schema 7 as the
  allocation tick of the runtime provider, so both timestamps show in the allocation table.
\<close>

definition twoEventBlock :: "byte list" where
  "twoEventBlock =
     [20, 0, 1, 0, 0, 0, 0, 0, 0, 0, 0, 0, 0, 0, 0, 0, 0, 0, 0, 0,
      0x8D, 7, 42, 1, 5, 10, 64, 0, 0, 0, 0, 0, 0, 0, 0, 0,
      0, 9, 128, 0, 0, 0, 0, 0, 0, 0, 0, 0]"

definition tickParser :: NetTraceParser where
  "tickParser =
     (newParser [])\<lparr>this_metadata :=
        [(7, \<lparr>metadataId = 7, providerName = DOTNET_RUNTIME_PROVIDER, eventId = 10,
               eventName = [], md_keywords = 0, version = 0, level = 0, opcode = 0,
               md_fields = []\<rparr>)]\<rparr>"

definition firstTick :: EventHeader where
  "firstTick = \<lparr>eventFlags = Some 0x8D, eh_metadataId = 7, eh_threadId = 42, eh_stackId = 1,
                 timestampDelta = 5, eh_timestamp = 5, eh_payloadSize = 10\<rparr>"

definition secondTick :: EventHeader where
  "secondTick = \<lparr>eventFlags = Some 0, eh_metadataId = 7, eh_threadId = 42, eh_stackId = 1,
                  timestampDelta = 9, eh_timestamp = 14, eh_payloadSize = 10\<rparr>"

lemma twoEventBlock_first:
  "readCompressedEvent zeroPrev \<lparr>buffer = twoEventBlock, offset = 20\<rparr>
     = (Inr (firstTick, Some [64, 0, 0, 0, 0, 0, 0, 0, 0, 0]),
        \<lparr>buffer = twoEventBlock, offset = 36\<rparr>)"
  by (simp add: readCompressedEvent_def zeroPrev_def twoEventBlock_def firstTick_def cursor_eval)

lemma twoEventBlock_second:
  "readCompressedEvent (nextPrev firstTick) \<lparr>buffer = twoEventBlock, offset = 36\<rparr>
     = (Inr (secondTick, Some [128, 0, 0, 0, 0, 0, 0, 0, 0, 0]),
        \<lparr>buffer = twoEventBlock, offset = 48\<rparr>)"
  by (simp add: readCompressedEvent_def nextPrev_def twoEventBlock_def firstTick_def
      secondTick_def cursor_eval)

lemma twoEventBlock_header:
  "20 \<le> length twoEventBlock" "toSigned 16 (leBytes twoEventBlock 0 2) \<le> 20"
  "toSigned 16 (leBytes twoEventBlock 2 2) AND 1 \<noteq> 0"
  by (simp_all add: twoEventBlock_def leBytes_def toSigned_def)

lemma parseEvents_end:
  "parseEvents c prev p \<lparr>buffer = twoEventBlock, offset = 48\<rparr> = p"
  by (simp add: parseEvents.simps[of c prev p] remaining_def twoEventBlock_def)

lemmas event_eval =
  processEvent_def parseAllocationEvent_def readAllocationPayload_def addAllocation_def
  DOTNET_RUNTIME_PROVIDER_def DOTNET_RUNTIME_RUNDOWN_PROVIDER_def SAMPLE_PROFILER_PROVIDER_def
  GC_ALLOCATION_TICK_EVENT_ID_def METHOD_LOAD_VERBOSE_EVENT_ID_def
  METHOD_JITTING_STARTED_EVENT_ID_def METHOD_DC_END_VERBOSE_EVENT_ID_def orZero_def ascii_def
  newParser_def emptyResult_def

lemma twoTicks_processed:
  "dbg_totalEvents (processEvent 7 42 14 1 [128, 0, 0, 0, 0, 0, 0, 0, 0, 0]
            (processEvent 7 42 5 1 [64, 0, 0, 0, 0, 0, 0, 0, 0, 0] tickParser)) = 2"
  "dbg_eventCountsByMetadataId (processEvent 7 42 14 1 [128, 0, 0, 0, 0, 0, 0, 0, 0, 0]
            (processEvent 7 42 5 1 [64, 0, 0, 0, 0, 0, 0, 0, 0, 0] tickParser)) = [(7, 2)]"
  "map (\<lambda>(n, a). map ae_timestamp (ai_allocations a))
     (allocations (result (processEvent 7 42 14 1 [128, 0, 0, 0, 0, 0, 0, 0, 0, 0]
            (processEvent 7 42 5 1 [64, 0, 0, 0, 0, 0, 0, 0, 0, 0] tickParser)))) = [[5, 14]]"
  "map (\<lambda>(n, a). map ae_size (ai_allocations a))
     (allocations (result (processEvent 7 42 14 1 [128, 0, 0, 0, 0, 0, 0, 0, 0, 0]
            (processEvent 7 42 5 1 [64, 0, 0, 0, 0, 0, 0, 0, 0, 0] tickParser)))) = [[64, 128]]"
  by (simp_all add: tickParser_def event_eval cursor_eval)

theorem compressed_event_carry_witness:
  "readCompressedEvent zeroPrev \<lparr>buffer = twoEventBlock, offset = 20\<rparr>
     = (Inr (firstTick, Some [64, 0, 0, 0, 0, 0, 0, 0, 0, 0]),
        \<lparr>buffer = twoEventBlock, offset = 36\<rparr>)
   \<and> readCompressedEvent (nextPrev firstTick) \<lparr>buffer = twoEventBlock, offset = 36\<rparr>
     = (Inr (secondTick, Some [128, 0, 0, 0, 0, 0, 0, 0, 0, 0]),
        \<lparr>buffer = twoEventBlock, offset = 48\<rparr>)
   \<and> eventFlags secondTick = Some 0
   \<and> eh_metadataId secondTick = 7 \<and> eh_threadId secondTick = 42 \<and> eh_stackId secondTick = 1
   \<and> eh_payloadSize secondTick = 10
   \<and> eh_timestamp firstTick = 5 \<and> eh_timestamp secondTick = 5 + 9
   \<and> readVarUInt64 \<lparr>buffer = twoEventBlock, offset = 37\<rparr>
     = (Inr 9, \<lparr>buffer = twoEventBlock, offset = 38\<rparr>)
   \<and> (\<exists>p'. parseEventBlock twoEventBlock tickParser = Inr p'
        \<and> dbg_totalEvents p' = 2 \<and> dbg_eventCountsByMetadataId p' = [(7, 2)]
        \<and> map (\<lambda>(n, a). map ae_timestamp (ai_allocations a)) (allocations (result p'))
            = [[5, 14]]
        \<and> map (\<lambda>(n, a). map ae_size (ai_allocations a)) (allocations (result p'))
            = [[64, 128]])"
proof -
  note inst = compressed_event_carry[of "nextPrev firstTick"
      "\<lparr>buffer = twoEventBlock, offset = 36\<rparr>" secondTick
      "Some [128, 0, 0, 0, 0, 0, 0, 0, 0, 0]" "\<lparr>buffer = twoEventBlock, offset = 48\<rparr>"
      tickParser twoEventBlock firstTick "Some [64, 0, 0, 0, 0, 0, 0, 0, 0, 0]"
      "\<lparr>buffer = twoEventBlock, offset = 36\<rparr>" secondTick
      "Some [128, 0, 0, 0, 0, 0, 0, 0, 0, 0]" "\<lparr>buffer = twoEventBlock, offset = 48\<rparr>"]
  have f0: "eventFlags secondTick = Some 0" by (simp add: secondTick_def)
  have d: "readVarUInt64 \<lparr>buffer = twoEventBlock, offset = 37\<rparr>
     = (Inr 9, \<lparr>buffer = twoEventBlock, offset = 38\<rparr>)"
    by (simp add: twoEventBlock_def cursor_eval)
  have hyp: "20 \<le> length twoEventBlock \<and> toSigned 16 (leBytes twoEventBlock 0 2) \<le> 20
        \<and> toSigned 16 (leBytes twoEventBlock 2 2) AND 1 \<noteq> 0
        \<and> readCompressedEvent zeroPrev \<lparr>buffer = twoEventBlock, offset = 20\<rparr>
            = (Inr (firstTick, Some [64, 0, 0, 0, 0, 0, 0, 0, 0, 0]),
               \<lparr>buffer = twoEventBlock, offset = 36\<rparr>)
        \<and> readCompressedEvent (nextPrev firstTick) \<lparr>buffer = twoEventBlock, offset = 36\<rparr>
            = (Inr (secondTick, Some [128, 0, 0, 0, 0, 0, 0, 0, 0, 0]),
               \<lparr>buffer = twoEventBlock, offset = 48\<rparr>)
        \<and> eventFlags secondTick = Some 0"
    using twoEventBlock_first twoEventBlock_second twoEventBlock_header f0 by blast
  note two = inst[THEN conjunct2, THEN conjunct2, THEN conjunct2, rule_format, OF hyp]
  from two have fld: "eh_metadataId secondTick = eh_metadataId firstTick"
      "eh_threadId secondTick = eh_threadId firstTick"
      "eh_stackId secondTick = eh_stackId firstTick"
      "eh_payloadSize secondTick = eh_payloadSize firstTick"
      "eh_timestamp firstTick = timestampDelta firstTick"
      "eh_timestamp secondTick = timestampDelta firstTick + timestampDelta secondTick"
    by blast+
  from two have "parseEventBlock twoEventBlock tickParser =
      Inr (parseEvents True (nextPrev secondTick)
             (processEvent (eh_metadataId secondTick) (eh_threadId secondTick)
                (eh_timestamp secondTick) (eh_stackId secondTick)
                [128, 0, 0, 0, 0, 0, 0, 0, 0, 0]
                (processEvent (eh_metadataId firstTick) (eh_threadId firstTick)
                   (eh_timestamp firstTick) (eh_stackId firstTick)
                   [64, 0, 0, 0, 0, 0, 0, 0, 0, 0] tickParser))
             \<lparr>buffer = twoEventBlock, offset = 48\<rparr>)"
    by simp
  then have blk: "parseEventBlock twoEventBlock tickParser =
      Inr (processEvent 7 42 14 1 [128, 0, 0, 0, 0, 0, 0, 0, 0, 0]
            (processEvent 7 42 5 1 [64, 0, 0, 0, 0, 0, 0, 0, 0, 0] tickParser))"
    by (simp add: parseEvents_end firstTick_def secondTick_def)
  from fld have vals: "eh_metadataId secondTick = 7 \<and> eh_threadId secondTick = 42
      \<and> eh_stackId secondTick = 1 \<and> eh_payloadSize secondTick = 10
      \<and> eh_timestamp firstTick = 5 \<and> eh_timestamp secondTick = 5 + 9"
    by (simp add: firstTick_def secondTick_def)
  from blk twoTicks_processed twoEventBlock_first twoEventBlock_second f0 d vals
  show ?thesis by simp
qed

section \<open>The key of a schema\<close>

lemma readMetadataHead_id:
  assumes "readMetadataHead reader = (Inr (pid, pn, ei, en, kw, ve, le), r1)"
  shows "\<exists>r0. readInt32LE reader = (Inr pid, r0)"
  using assms unfolding readMetadataHead_def
  by (auto dest!: bindE_Inr simp: returnE_def)

lemma parseMetadataPayload_decoded:
  assumes "readMetadataHead reader = (Inr (pid, pn, ei, en, kw, ve, le), r1)"
    and "(if 4 \<le> remaining r1
          then bindE readInt32LE (\<lambda>fieldCount. readMetadataFields 0 fieldCount []) r1
          else (Inr [], r1)) = (Inr fs, r2)"
  shows "this_metadata (parseMetadataPayload reader p)
           = AList.update pid
               \<lparr>metadataId = pid, providerName = pn, eventId = ei, eventName = en,
                md_keywords = kw, version = ve, level = le, opcode = 0, md_fields = fs\<rparr>
               (this_metadata p)"
  using assms by (simp add: parseMetadataPayload_def Let_def)

lemma parseMetadataPayload_failed:
  "(\<exists>e r1. readMetadataHead reader = (Inl e, r1)) \<or>
   (\<exists>h r1 e r2. readMetadataHead reader = (Inr h, r1) \<and>
      (if 4 \<le> remaining r1
       then bindE readInt32LE (\<lambda>fieldCount. readMetadataFields 0 fieldCount []) r1
       else (Inr [], r1)) = (Inl e, r2)) \<Longrightarrow>
   this_metadata (parseMetadataPayload reader p) = this_metadata p"
  by (auto simp: parseMetadataPayload_def Let_def)

lemma parseMetadataEvent_payload:
  assumes "parseMetadataEvent c st p r = (Inr (st', p'), r')"
  shows "\<exists>r1. readMetadataEventHeader c st r = (Inr st', r1)
          \<and> (if 0 < hs_payloadSize st' \<and> hasBytes r1 (hs_payloadSize st')
             then p' = parseMetadataPayload
                         \<lparr>buffer = jsSlice (buffer r1) (offset r1)
                                     (offset r1 + hs_payloadSize st'),
                          offset = 0\<rparr> p
                  \<and> r' = advance (hs_payloadSize st') r1
             else p' = p \<and> r' = r1)"
proof -
  from assms[unfolded parseMetadataEvent_def] obtain st1 r1 where
    h: "readMetadataEventHeader c st r = (Inr st1, r1)"
    and 1: "bindE getE (\<lambda>reader.
          if 0 < hs_payloadSize st1 \<and> hasBytes reader (hs_payloadSize st1)
          then bindE (subReader (hs_payloadSize st1))
                 (\<lambda>payloadReader. returnE (st1, parseMetadataPayload payloadReader p))
          else returnE (st1, p)) r1 = (Inr (st', p'), r')"
    by (blast dest: bindE_Inr)
  from 1 have st: "st' = st1"
    by (auto simp: bindE_def getE_def returnE_def subReader_def readBytes_def
        split: if_splits prod.splits sum.splits)
  from 1 have "if 0 < hs_payloadSize st1 \<and> hasBytes r1 (hs_payloadSize st1)
             then p' = parseMetadataPayload
                         \<lparr>buffer = jsSlice (buffer r1) (offset r1)
                                     (offset r1 + hs_payloadSize st1),
                          offset = 0\<rparr> p
                  \<and> r' = advance (hs_payloadSize st1) r1
             else p' = p \<and> r' = r1"
    by (auto simp: bindE_def getE_def returnE_def subReader_def readBytes_def
        split: if_splits)
  with h st show ?thesis by blast
qed

text \<open>
  Claim C3. Every schema in the schema table that \<^verbatim>\<open>parse\<close> returns is stored under the
  metadata id it holds. A metadata event hands \<^verbatim>\<open>parseMetadataPayload\<close> a cursor over its own
  payload bytes, the \<open>payloadSize\<close> bytes after its header, and nothing of the header's metadata
  id; \<^verbatim>\<open>parseMetadataPayload\<close> either leaves the table alone or stores one schema, whose id and
  key are the int32 at the start of that cursor; and it does store it when the payload decodes.
\<close>

theorem metadata_keyed_by_payload_id:
  "metadataKeyed (metadata (parse b))
   \<and> (parseMetadataEvent c st p r = (Inr (st', p'), r') \<longrightarrow>
        (\<exists>r1. readMetadataEventHeader c st r = (Inr st', r1)
          \<and> (if 0 < hs_payloadSize st' \<and> hasBytes r1 (hs_payloadSize st')
             then p' = parseMetadataPayload
                         \<lparr>buffer = jsSlice (buffer r1) (offset r1)
                                     (offset r1 + hs_payloadSize st'),
                          offset = 0\<rparr> p
                  \<and> r' = advance (hs_payloadSize st') r1
             else p' = p \<and> r' = r1)))
   \<and> (this_metadata (parseMetadataPayload reader q) = this_metadata q
        \<or> (\<exists>md r0. readInt32LE reader = (Inr (metadataId md), r0)
              \<and> this_metadata (parseMetadataPayload reader q)
                  = AList.update (metadataId md) md (this_metadata q)))
   \<and> (readMetadataHead reader = (Inr (pid, pn, ei, en, kw, ve, le), h1)
        \<and> (if 4 \<le> remaining h1
            then bindE readInt32LE (\<lambda>fieldCount. readMetadataFields 0 fieldCount []) h1
            else (Inr [], h1)) = (Inr fs, h2) \<longrightarrow>
        (\<exists>r0. readInt32LE reader = (Inr pid, r0))
        \<and> this_metadata (parseMetadataPayload reader q)
            = AList.update pid
                \<lparr>metadataId = pid, providerName = pn, eventId = ei, eventName = en,
                 md_keywords = kw, version = ve, level = le, opcode = 0, md_fields = fs\<rparr>
                (this_metadata q))"
proof -
  have 1: "metadataKeyed (metadata (parse b))" using parse_tables_inv by blast
  have 2: "parseMetadataEvent c st p r = (Inr (st', p'), r') \<longrightarrow>
        (\<exists>r1. readMetadataEventHeader c st r = (Inr st', r1)
          \<and> (if 0 < hs_payloadSize st' \<and> hasBytes r1 (hs_payloadSize st')
             then p' = parseMetadataPayload
                         \<lparr>buffer = jsSlice (buffer r1) (offset r1)
                                     (offset r1 + hs_payloadSize st'),
                          offset = 0\<rparr> p
                  \<and> r' = advance (hs_payloadSize st') r1
             else p' = p \<and> r' = r1))"
    using parseMetadataEvent_payload by blast
  have 3: "this_metadata (parseMetadataPayload reader q) = this_metadata q
        \<or> (\<exists>md r0. readInt32LE reader = (Inr (metadataId md), r0)
              \<and> this_metadata (parseMetadataPayload reader q)
                  = AList.update (metadataId md) md (this_metadata q))"
    using parseMetadataPayload_stores[of reader q] by blast
  have 4: "readMetadataHead reader = (Inr (pid, pn, ei, en, kw, ve, le), h1)
        \<and> (if 4 \<le> remaining h1
            then bindE readInt32LE (\<lambda>fieldCount. readMetadataFields 0 fieldCount []) h1
            else (Inr [], h1)) = (Inr fs, h2) \<longrightarrow>
        (\<exists>r0. readInt32LE reader = (Inr pid, r0))
        \<and> this_metadata (parseMetadataPayload reader q)
            = AList.update pid
                \<lparr>metadataId = pid, providerName = pn, eventId = ei, eventName = en,
                 md_keywords = kw, version = ve, level = le, opcode = 0, md_fields = fs\<rparr>
                (this_metadata q)"
  proof (intro impI, elim conjE)
    assume h: "readMetadataHead reader = (Inr (pid, pn, ei, en, kw, ve, le), h1)"
      and f: "(if 4 \<le> remaining h1
            then bindE readInt32LE (\<lambda>fieldCount. readMetadataFields 0 fieldCount []) h1
            else (Inr [], h1)) = (Inr fs, h2)"
    from readMetadataHead_id[OF h] parseMetadataPayload_decoded[OF h f, of q]
    show "(\<exists>r0. readInt32LE reader = (Inr pid, r0))
        \<and> this_metadata (parseMetadataPayload reader q)
            = AList.update pid
                \<lparr>metadataId = pid, providerName = pn, eventId = ei, eventName = en,
                 md_keywords = kw, version = ve, level = le, opcode = 0, md_fields = fs\<rparr>
                (this_metadata q)" by (rule conjI)
  qed
  from 1 2 3 4 show ?thesis by (intro conjI)
qed


text \<open>
  The event above: its header carries the id 99, its payload of 34 bytes starts with the
  int32 7, and the schema is stored under 7.
\<close>

definition examplePayloadReader :: BufferReader where
  "examplePayloadReader = \<lparr>buffer = drop 4 exampleMetadataEvent, offset = 0\<rparr>"

definition exampleHeaderState :: HeaderState where
  "exampleHeaderState =
     \<lparr>hs_metadataId = 99, hs_sequenceNumber = 1, hs_captureThreadId = 0, hs_threadId = 0,
      hs_stackId = 0, hs_timestamp = 0, hs_payloadSize = 34\<rparr>"

definition exampleSchema :: EventMetadata where
  "exampleSchema =
     \<lparr>metadataId = 7, providerName = [65], eventId = 10, eventName = [], md_keywords = 0,
      version = 0, level = 0, opcode = 0, md_fields = []\<rparr>"

lemma examplePayload_head:
  "readMetadataHead examplePayloadReader
     = (Inr (7, [65], 10, [], 0, 0, 0), \<lparr>buffer = drop 4 exampleMetadataEvent, offset = 30\<rparr>)"
  by (simp add: examplePayloadReader_def exampleMetadataEvent_def readMetadataHead_def cursor_eval)

lemma examplePayload_fields:
  "(if 4 \<le> remaining \<lparr>buffer = drop 4 exampleMetadataEvent, offset = 30\<rparr>
    then bindE readInt32LE (\<lambda>fieldCount. readMetadataFields 0 fieldCount [])
           \<lparr>buffer = drop 4 exampleMetadataEvent, offset = 30\<rparr>
    else (Inr [], \<lparr>buffer = drop 4 exampleMetadataEvent, offset = 30\<rparr>))
     = (Inr [], \<lparr>buffer = drop 4 exampleMetadataEvent, offset = 34\<rparr>)"
  by (simp add: exampleMetadataEvent_def readMetadataFields.simps cursor_eval)

lemma exampleMetadataEvent_header:
  "readMetadataEventHeader True
     \<lparr>hs_metadataId = 0, hs_sequenceNumber = 0, hs_captureThreadId = 0, hs_threadId = 0,
      hs_stackId = 0, hs_timestamp = 0, hs_payloadSize = 0\<rparr>
     (newReader exampleMetadataEvent)
     = (Inr exampleHeaderState, \<lparr>buffer = exampleMetadataEvent, offset = 4\<rparr>)"
  by (simp add: exampleHeaderState_def exampleMetadataEvent_def readMetadataEventHeader_def
      cursor_eval)

theorem metadata_keyed_by_payload_id_witness:
  "(\<exists>p' r'.
      parseMetadataEvent True
        \<lparr>hs_metadataId = 0, hs_sequenceNumber = 0, hs_captureThreadId = 0, hs_threadId = 0,
         hs_stackId = 0, hs_timestamp = 0, hs_payloadSize = 0\<rparr>
        (newParser []) (newReader exampleMetadataEvent) = (Inr (exampleHeaderState, p'), r')
      \<and> p' = parseMetadataPayload examplePayloadReader (newParser [])
      \<and> this_metadata p' = [(7, exampleSchema)])
   \<and> hs_metadataId exampleHeaderState = 99
   \<and> metadataId exampleSchema = 7
   \<and> (\<exists>r0. readInt32LE examplePayloadReader = (Inr 7, r0))
   \<and> this_metadata (parseMetadataPayload examplePayloadReader (newParser []))
       = AList.update 7 exampleSchema []"
proof -
  note inst = metadata_keyed_by_payload_id[of "[]" True
      "\<lparr>hs_metadataId = 0, hs_sequenceNumber = 0, hs_captureThreadId = 0, hs_threadId = 0,
        hs_stackId = 0, hs_timestamp = 0, hs_payloadSize = 0\<rparr>"
      "newParser []" "newReader exampleMetadataEvent" exampleHeaderState
      "parseMetadataPayload examplePayloadReader (newParser [])"
      "\<lparr>buffer = exampleMetadataEvent, offset = 38\<rparr>"
      examplePayloadReader "newParser []" 7 "[65]" 10 "[]" 0 0 0
      "\<lparr>buffer = drop 4 exampleMetadataEvent, offset = 30\<rparr>" "[]"
      "\<lparr>buffer = drop 4 exampleMetadataEvent, offset = 34\<rparr>"]
  have hyp: "readMetadataHead examplePayloadReader
        = (Inr (7, [65], 10, [], 0, 0, 0), \<lparr>buffer = drop 4 exampleMetadataEvent, offset = 30\<rparr>)
      \<and> (if 4 \<le> remaining \<lparr>buffer = drop 4 exampleMetadataEvent, offset = 30\<rparr>
          then bindE readInt32LE (\<lambda>fieldCount. readMetadataFields 0 fieldCount [])
                 \<lparr>buffer = drop 4 exampleMetadataEvent, offset = 30\<rparr>
          else (Inr [], \<lparr>buffer = drop 4 exampleMetadataEvent, offset = 30\<rparr>))
        = (Inr [], \<lparr>buffer = drop 4 exampleMetadataEvent, offset = 34\<rparr>)"
    using examplePayload_head examplePayload_fields by (rule conjI)
  note stored = inst[THEN conjunct2, THEN conjunct2, THEN conjunct2, rule_format, OF hyp]
  from stored have a: "\<exists>r0. readInt32LE examplePayloadReader = (Inr 7, r0)"
    and b: "this_metadata (parseMetadataPayload examplePayloadReader (newParser []))
       = AList.update 7 exampleSchema []"
    by (simp_all add: exampleSchema_def newParser_def)
  have ev: "parseMetadataEvent True
        \<lparr>hs_metadataId = 0, hs_sequenceNumber = 0, hs_captureThreadId = 0, hs_threadId = 0,
         hs_stackId = 0, hs_timestamp = 0, hs_payloadSize = 0\<rparr>
        (newParser []) (newReader exampleMetadataEvent)
      = (Inr (exampleHeaderState,
              parseMetadataPayload examplePayloadReader (newParser [])),
         \<lparr>buffer = exampleMetadataEvent, offset = 38\<rparr>)"
    using exampleMetadataEvent_header
    by (simp add: parseMetadataEvent_def bindE_def getE_def returnE_def subReader_def
        readBytes_def hasBytes_def advance_def jsSlice_def exampleHeaderState_def
        examplePayloadReader_def exampleMetadataEvent_def)
  note tied = inst[THEN conjunct2, THEN conjunct1, rule_format, OF ev]
  from tied exampleMetadataEvent_header
  have c: "parseMetadataPayload examplePayloadReader (newParser [])
      = parseMetadataPayload
          \<lparr>buffer = jsSlice exampleMetadataEvent 4 (4 + hs_payloadSize exampleHeaderState),
           offset = 0\<rparr> (newParser [])"
    by (auto simp: exampleHeaderState_def hasBytes_def exampleMetadataEvent_def)
  have d: "hs_metadataId exampleHeaderState = 99" "metadataId exampleSchema = 7"
    by (simp_all add: exampleHeaderState_def exampleSchema_def)
  from ev a b c d show ?thesis by simp
qed

section \<open>The addresses of a decoded stack\<close>

lemma leValue_nonneg: "0 \<le> leValue xs"
  by (induction xs) auto

text \<open>
  The addresses the inner loop reads from a cursor: \<open>m\<close> values of \<open>ptrSize\<close> bytes, back to
  back.
\<close>

definition addressesAt :: "BufferReader \<Rightarrow> int \<Rightarrow> nat \<Rightarrow> int list" where
  "addressesAt r ptrSize m =
     map (\<lambda>k. leBytes (buffer r) (offset r + int k * ptrSize) (nat ptrSize)) [0..<m]"

lemma addressesAt_Suc:
  "addressesAt r ptrSize (Suc m)
     = leBytes (buffer r) (offset r) (nat ptrSize) # addressesAt (advance ptrSize r) ptrSize m"
proof -
  have "[0..<Suc m] = 0 # map Suc [0..<m]" by (simp add: upt_conv_Cons map_Suc_upt del: upt_Suc)
  then show ?thesis
    by (simp add: addressesAt_def advance_def comp_def algebra_simps del: upt_Suc)
qed

lemma readAddresses_exact:
  assumes "ptrSize = 4 \<or> ptrSize = 8"
    and "0 \<le> offset r" and "j \<le> stackSize div ptrSize"
    and "offset r + (stackSize div ptrSize - j) * ptrSize \<le> int (length (buffer r))"
  shows "readAddresses ptrSize stackSize j acc r
           = (Inr (acc @ addressesAt r ptrSize (nat (stackSize div ptrSize - j))),
              r\<lparr>offset := offset r + (stackSize div ptrSize - j) * ptrSize\<rparr>)"
  using assms
proof (induction "nat (stackSize div ptrSize - j)" arbitrary: j acc r)
  case 0
  then have "\<not> belowNumAddrs j stackSize ptrSize" by (auto simp: belowNumAddrs_def)
  then have "readAddresses ptrSize stackSize j acc r = (Inr acc, r)"
    by (simp add: readAddresses.simps[of ptrSize stackSize j acc r])
  moreover from 0 have "stackSize div ptrSize - j = 0" by simp
  ultimately show ?case by (simp add: addressesAt_def)
next
  case (Suc k)
  define n where "n = stackSize div ptrSize"
  from Suc.hyps(2) have lt: "j < n" unfolding n_def by linarith
  then have below: "belowNumAddrs j stackSize ptrSize"
    using Suc.prems(1) by (auto simp: belowNumAddrs_def n_def)
  have "ptrSize \<le> (n - j) * ptrSize"
    using lt Suc.prems(1) by (auto simp: algebra_simps)
  with Suc.prems(4) have hb: "hasBytes r ptrSize"
    unfolding hasBytes_def n_def by linarith
  define a where "a = leBytes (buffer r) (offset r) (nat ptrSize)"
  have rd: "(if ptrSize = 8 then readUInt64LE r else readUInt32LE r) = (Inr a, advance ptrSize r)"
    using hb Suc.prems(1,2)
    by (auto simp: a_def readUInt64LE_def readUInt32LE_def readFixed_def)
  have step: "readAddresses ptrSize stackSize j acc r
        = readAddresses ptrSize stackSize (j + 1) (acc @ [a]) (advance ptrSize r)"
    using below hb rd
    by (simp add: readAddresses.simps[of ptrSize stackSize j acc r])
  have k: "k = nat (stackSize div ptrSize - (j + 1))" using Suc.hyps(2) by linarith
  have o: "0 \<le> offset (advance ptrSize r)"
    using Suc.prems(1,2) by (auto simp: advance_def)
  have j1: "j + 1 \<le> stackSize div ptrSize" using lt n_def by simp
  have room: "offset (advance ptrSize r) + (stackSize div ptrSize - (j + 1)) * ptrSize
        \<le> int (length (buffer (advance ptrSize r)))"
    using Suc.prems(4) by (simp add: advance_def algebra_simps)
  have sk: "nat (stackSize div ptrSize - j) = Suc k" using Suc.hyps(2) by simp
  from Suc.hyps(1)[OF k Suc.prems(1) o j1 room, of "acc @ [a]"] step
  have "readAddresses ptrSize stackSize j acc r
      = (Inr ((acc @ [a]) @ addressesAt (advance ptrSize r) ptrSize k),
         (advance ptrSize r)\<lparr>offset := offset (advance ptrSize r)
             + (stackSize div ptrSize - (j + 1)) * ptrSize\<rparr>)"
    by (simp add: k)
  then show ?case
    by (simp add: sk addressesAt_Suc a_def advance_def algebra_simps)
qed

lemma floor_quotient:
  fixes s d :: int
  assumes "0 < d"
  shows "s div d * d \<le> s" and "s div d * d = s \<longleftrightarrow> d dvd s"
proof -
  show "s div d * d \<le> s"
    using assms by (metis div_mult_mod_eq add_increasing2 order_refl pos_mod_sign)
  show "s div d * d = s \<longleftrightarrow> d dvd s"
    by (metis dvd_div_mult_self dvd_triv_right)
qed

lemma parseStacks_pass:
  assumes "this_pointerSize p = 4 \<or> this_pointerSize p = 8"
  shows "parseStacks i cnt currentId p r =
     (let stackSize = leBytes (buffer r) (offset r) 4;
          n = stackSize div this_pointerSize p
      in if i < cnt \<and> 4 \<le> remaining r \<and> 0 \<le> offset r \<and> stackSize \<noteq> 0
            \<and> hasBytes (advance 4 r) stackSize
         then parseStacks (i + 1) cnt (currentId + 1)
                (p\<lparr>this_stacks :=
                     AList.update currentId
                       \<lparr>stackId = currentId,
                        addresses = addressesAt (advance 4 r) (this_pointerSize p) (nat n)\<rparr>
                       (this_stacks p)\<rparr>)
                (r\<lparr>offset := offset r + 4 + n * this_pointerSize p\<rparr>)
         else p)"
proof -
  define stackSize where "stackSize = leBytes (buffer r) (offset r) 4"
  define n where "n = stackSize div this_pointerSize p"
  show ?thesis
  proof (cases "i < cnt \<and> 4 \<le> remaining r \<and> 0 \<le> offset r \<and> stackSize \<noteq> 0
            \<and> hasBytes (advance 4 r) stackSize")
    case True
    then have rd: "readUInt32LE r = (Inr stackSize, advance 4 r)"
      by (simp add: readUInt32LE_def readFixed_def hasBytes_def remaining_def stackSize_def)
    have nn: "0 \<le> stackSize" unfolding stackSize_def leBytes_def by (rule leValue_nonneg)
    have o: "0 \<le> offset (advance 4 r)" using True by (simp add: advance_def)
    have n0: "0 \<le> stackSize div this_pointerSize p"
      using assms nn by (auto simp: pos_imp_zdiv_nonneg_iff)
    have pos: "0 < this_pointerSize p" using assms by auto
    have "offset (advance 4 r) + (stackSize div this_pointerSize p - 0) * this_pointerSize p
        \<le> int (length (buffer (advance 4 r)))"
      using True floor_quotient(1)[OF pos, of stackSize] by (simp add: hasBytes_def)
    from readAddresses_exact[OF assms o _ this, of "[]"] n0
    have ra: "readAddresses (this_pointerSize p) stackSize 0 [] (advance 4 r)
        = (Inr (addressesAt (advance 4 r) (this_pointerSize p) (nat n)),
           (advance 4 r)\<lparr>offset := offset (advance 4 r) + n * this_pointerSize p\<rparr>)"
      by (simp add: n_def)
    have "parseStacks i cnt currentId p r
        = parseStacks (i + 1) cnt (currentId + 1)
                (p\<lparr>this_stacks :=
                     AList.update currentId
                       \<lparr>stackId = currentId,
                        addresses = addressesAt (advance 4 r) (this_pointerSize p) (nat n)\<rparr>
                       (this_stacks p)\<rparr>)
                ((advance 4 r)\<lparr>offset := offset (advance 4 r) + n * this_pointerSize p\<rparr>)"
      using True rd ra by (simp add: parseStacks.simps[of i cnt currentId p r])
    with True show ?thesis
      by (simp add: Let_def stackSize_def[symmetric] n_def[symmetric] advance_def)
  next
    case False
    have "parseStacks i cnt currentId p r = p"
    proof (cases "i < cnt \<and> 4 \<le> remaining r")
      case False
      then show ?thesis by (auto simp add: parseStacks.simps[of i cnt currentId p r])
    next
      case go: True
      show ?thesis
      proof (cases "0 \<le> offset r")
        case neg: False
        with go have "readUInt32LE r = (Inl RangeError, r)"
          by (simp add: readUInt32LE_def readFixed_def hasBytes_def remaining_def)
        with go show ?thesis by (simp add: parseStacks.simps[of i cnt currentId p r])
      next
        case True
        with go have rd: "readUInt32LE r = (Inr stackSize, advance 4 r)"
          by (simp add: readUInt32LE_def readFixed_def hasBytes_def remaining_def stackSize_def)
        from False go True have "stackSize = 0 \<or> \<not> hasBytes (advance 4 r) stackSize" by blast
        with go rd show ?thesis by (auto simp add: parseStacks.simps[of i cnt currentId p r])
      qed
    qed
    with False show ?thesis
      unfolding Let_def stackSize_def[symmetric] n_def[symmetric] by (simp only: if_False)
  qed
qed


lemma parseStackBlock_start:
  "parseStackBlock data p =
     (if 8 \<le> length data
      then parseStacks 0 (leBytes data 4 4) (leBytes data 0 4) p \<lparr>buffer = data, offset = 8\<rparr>
      else p)"
  by (simp add: parseStackBlock_def bindE_def readUInt32LE_def readFixed_def hasBytes_def
      advance_def newReader_def returnE_def)

text \<open>
  A stack block of one stack with the declared size 12, read with the pointer size 8 the parser
  starts with: one address is decoded, and 8 is not 12.
\<close>

definition stackOfTwelveBytes :: "byte list" where
  "stackOfTwelveBytes = [1, 0, 0, 0, 1, 0, 0, 0, 12, 0, 0, 0, 0, 16, 0, 0, 0, 0, 0, 0, 0, 32, 0, 0]"

theorem stack_size_counterexample:
  "this_pointerSize (newParser []) = 8
   \<and> readUInt32LE \<lparr>buffer = stackOfTwelveBytes, offset = 8\<rparr>
       = (Inr 12, \<lparr>buffer = stackOfTwelveBytes, offset = 12\<rparr>)
   \<and> this_stacks (parseStackBlock stackOfTwelveBytes (newParser []))
       = [(1, \<lparr>stackId = 1, addresses = [4096]\<rparr>)]
   \<and> int (length [4096 :: int]) * this_pointerSize (newParser []) \<noteq> 12"
  by (simp add: stackOfTwelveBytes_def parseStackBlock_def parseStacks.simps
      readAddresses.simps belowNumAddrs_def newParser_def newReader_def remaining_def
      cursor_eval)

text \<open>
  Claim C6, as the code has it. \<^verbatim>\<open>parseStackBlock\<close> runs its loop from the byte after the
  first id and the count. With a pointer size of 4 or 8, a pass of the loop that stores a stack
  record has read the declared size at its cursor as a uint32, found it other than 0 and that
  many bytes left in the block, and stores under the current id the \<open>stackSize div pointerSize\<close>
  addresses, the quotient rounded down, that follow the size field back to back, each the
  little-endian value of \<open>pointerSize\<close> bytes; every other pass ends the loop. So the number of
  addresses times the pointer size is at most the declared size, and equal to it exactly when
  the pointer size divides the declared size. The next pass starts right after the last address
  read: what is left of a size that the pointer size does not divide is not skipped.
\<close>

theorem stack_address_count:
  assumes "this_pointerSize p = 4 \<or> this_pointerSize p = 8"
  shows "parseStackBlock data p =
           (if 8 \<le> length data
            then parseStacks 0 (leBytes data 4 4) (leBytes data 0 4) p
                   \<lparr>buffer = data, offset = 8\<rparr>
            else p)
       \<and> parseStacks i cnt currentId p r =
           (let stackSize = leBytes (buffer r) (offset r) 4;
                n = stackSize div this_pointerSize p
            in if i < cnt \<and> 4 \<le> remaining r \<and> 0 \<le> offset r \<and> stackSize \<noteq> 0
                  \<and> hasBytes (advance 4 r) stackSize
               then parseStacks (i + 1) cnt (currentId + 1)
                      (p\<lparr>this_stacks :=
                           AList.update currentId
                             \<lparr>stackId = currentId,
                              addresses = addressesAt (advance 4 r) (this_pointerSize p) (nat n)\<rparr>
                             (this_stacks p)\<rparr>)
                      (r\<lparr>offset := offset r + 4 + n * this_pointerSize p\<rparr>)
               else p)
       \<and> (let stackSize = leBytes (buffer r) (offset r) 4;
               addrs = addressesAt (advance 4 r) (this_pointerSize p)
                         (nat (stackSize div this_pointerSize p))
           in int (length addrs) = stackSize div this_pointerSize p
              \<and> int (length addrs) * this_pointerSize p \<le> stackSize
              \<and> (int (length addrs) * this_pointerSize p = stackSize
                   \<longleftrightarrow> this_pointerSize p dvd stackSize))"
proof -
  define stackSize where "stackSize = leBytes (buffer r) (offset r) 4"
  have nn: "0 \<le> stackSize" unfolding stackSize_def leBytes_def by (rule leValue_nonneg)
  have pos: "0 < this_pointerSize p" using assms by auto
  have n0: "0 \<le> stackSize div this_pointerSize p"
    using pos nn by (simp add: pos_imp_zdiv_nonneg_iff)
  have len: "int (length (addressesAt (advance 4 r) (this_pointerSize p)
                         (nat (stackSize div this_pointerSize p))))
      = stackSize div this_pointerSize p"
    using n0 by (simp add: addressesAt_def)
  have 3: "let stackSize = leBytes (buffer r) (offset r) 4;
               addrs = addressesAt (advance 4 r) (this_pointerSize p)
                         (nat (stackSize div this_pointerSize p))
           in int (length addrs) = stackSize div this_pointerSize p
              \<and> int (length addrs) * this_pointerSize p \<le> stackSize
              \<and> (int (length addrs) * this_pointerSize p = stackSize
                   \<longleftrightarrow> this_pointerSize p dvd stackSize)"
    unfolding Let_def stackSize_def[symmetric] len
    using floor_quotient[OF pos, of stackSize] by simp
  from parseStackBlock_start[of data p] parseStacks_pass[OF assms, of i cnt currentId r] 3
  show ?thesis by (intro conjI)
qed

text \<open>
  A block of two stacks read with the pointer size 8. The first declares 12 bytes, an address
  and four bytes more; the second declares 16 bytes, two addresses. The first record holds the
  one address. The second pass starts inside the first entry: it takes its last four bytes for
  a size of 8 and decodes one address from the size field of the second entry and the four bytes
  after it.
\<close>

definition twoStackBlock :: "byte list" where
  "twoStackBlock =
     [1, 0, 0, 0, 2, 0, 0, 0,
      12, 0, 0, 0, 0, 0x10, 0, 0, 0, 0, 0, 0, 8, 0, 0, 0,
      16, 0, 0, 0, 0, 0x30, 0, 0, 0, 0, 0, 0, 0, 0x40, 0, 0, 0, 0, 0, 0]"

definition afterFirstStack :: NetTraceParser where
  "afterFirstStack = (newParser [])\<lparr>this_stacks := [(1, \<lparr>stackId = 1, addresses = [0x1000]\<rparr>)]\<rparr>"

definition afterSecondStack :: NetTraceParser where
  "afterSecondStack =
     (newParser [])\<lparr>this_stacks := [(1, \<lparr>stackId = 1, addresses = [0x1000]\<rparr>),
                                      (2, \<lparr>stackId = 2, addresses = [0x300000000010]\<rparr>)]\<rparr>"

theorem stack_address_count_witness:
  "this_pointerSize (newParser []) = 8
   \<and> parseStackBlock twoStackBlock (newParser [])
       = parseStacks 0 2 1 (newParser []) \<lparr>buffer = twoStackBlock, offset = 8\<rparr>
   \<and> parseStacks 0 2 1 (newParser []) \<lparr>buffer = twoStackBlock, offset = 8\<rparr>
       = parseStacks 1 2 2 afterFirstStack \<lparr>buffer = twoStackBlock, offset = 20\<rparr>
   \<and> parseStacks 1 2 2 afterFirstStack \<lparr>buffer = twoStackBlock, offset = 20\<rparr>
       = parseStacks 2 2 3 afterSecondStack \<lparr>buffer = twoStackBlock, offset = 32\<rparr>
   \<and> parseStacks 2 2 3 afterSecondStack \<lparr>buffer = twoStackBlock, offset = 32\<rparr> = afterSecondStack
   \<and> this_stacks (parseStackBlock twoStackBlock (newParser []))
       = [(1, \<lparr>stackId = 1, addresses = [0x1000]\<rparr>),
          (2, \<lparr>stackId = 2, addresses = [0x300000000010]\<rparr>)]
   \<and> leBytes twoStackBlock 8 4 = 12 \<and> int (length [0x1000 :: int]) * 8 \<le> 12
   \<and> \<not> (8 :: int) dvd 12"
proof -
  have ps: "this_pointerSize (newParser []) = 4 \<or> this_pointerSize (newParser []) = 8"
    "this_pointerSize afterFirstStack = 4 \<or> this_pointerSize afterFirstStack = 8"
    "this_pointerSize afterSecondStack = 4 \<or> this_pointerSize afterSecondStack = 8"
    by (simp_all add: newParser_def afterFirstStack_def afterSecondStack_def)
  note one = stack_address_count[OF ps(1), of twoStackBlock 0 2 1
      "\<lparr>buffer = twoStackBlock, offset = 8\<rparr>"]
  note two = stack_address_count[OF ps(2), of twoStackBlock 1 2 2
      "\<lparr>buffer = twoStackBlock, offset = 20\<rparr>"]
  note three = stack_address_count[OF ps(3), of twoStackBlock 2 2 3
      "\<lparr>buffer = twoStackBlock, offset = 32\<rparr>"]
  have a: "parseStackBlock twoStackBlock (newParser [])
       = parseStacks 0 2 1 (newParser []) \<lparr>buffer = twoStackBlock, offset = 8\<rparr>"
    using one[THEN conjunct1] by (simp add: twoStackBlock_def leBytes_def)
  have b: "parseStacks 0 2 1 (newParser []) \<lparr>buffer = twoStackBlock, offset = 8\<rparr>
       = parseStacks 1 2 2 afterFirstStack \<lparr>buffer = twoStackBlock, offset = 20\<rparr>"
    using one[THEN conjunct2, THEN conjunct1]
    by (simp add: twoStackBlock_def leBytes_def remaining_def hasBytes_def advance_def
        addressesAt_def newParser_def afterFirstStack_def Let_def)
  have c: "parseStacks 1 2 2 afterFirstStack \<lparr>buffer = twoStackBlock, offset = 20\<rparr>
       = parseStacks 2 2 3 afterSecondStack \<lparr>buffer = twoStackBlock, offset = 32\<rparr>"
    using two[THEN conjunct2, THEN conjunct1]
    by (simp add: twoStackBlock_def leBytes_def remaining_def hasBytes_def advance_def
        addressesAt_def newParser_def afterFirstStack_def afterSecondStack_def Let_def)
  have d: "parseStacks 2 2 3 afterSecondStack \<lparr>buffer = twoStackBlock, offset = 32\<rparr>
       = afterSecondStack"
    using three[THEN conjunct2, THEN conjunct1] by (simp add: Let_def)
  have e: "leBytes twoStackBlock 8 4 = 12" by (simp add: twoStackBlock_def leBytes_def)
  have f: "int (length [0x1000 :: int]) * 8 \<le> 12 \<and> \<not> (8 :: int) dvd 12"
    using one[THEN conjunct2, THEN conjunct2]
    by (simp add: Let_def e newParser_def addressesAt_def)
  from a b c d e f show ?thesis by (simp add: afterSecondStack_def newParser_def)
qed

end
